theory Spec2Isabelle
  imports Complex_Main "HOL-Library.Word"
begin

section \<open>The plant-monitoring server: video broadcast pipeline and run-state flags\<close>

text \<open>
  A shallow embedding of \<^verbatim>\<open>server.py\<close>. Python exceptions are values of \<open>exn\<close>; a
  function that may raise returns \<open>exn + 'a\<close>. Bytes are 8-bit words, Python integers are
  \<open>int\<close>, text is \<open>string\<close>. Calls into libraries (struct, subprocess, ws4py,
  http.server, picamera, requests) are modelled by what the call is documented to do;
  what the outside world decides (how long the transcoder lives, which call fails, what
  the classifier scores) is an explicit argument.
\<close>

subsection \<open>Basic data\<close>

type_synonym byte = "8 word"
type_synonym bytes = "byte list"

datatype exn =
    KeyboardInterrupt
  | StructError
  | RuntimeError
  | ValueError
  | TimeoutExpired
  | OSError

subsection \<open>Configuration (lines 39--56)\<close>

definition WIDTH :: int where "WIDTH = 640"
definition HEIGHT :: int where "HEIGHT = 480"
definition FRAMERATE :: int where "FRAMERATE = 24"
definition HTTP_PORT :: int where "HTTP_PORT = 8082"
definition WS_PORT :: int where "WS_PORT = 8084"
definition COLOR :: string where "COLOR = ''#444''"
definition BGCOLOR :: string where "BGCOLOR = ''#333''"
definition SCORE_THRESHOLD_UNDER :: real where "SCORE_THRESHOLD_UNDER = 6"
definition SCORE_THRESHOLD_UPPER :: real where "SCORE_THRESHOLD_UPPER = 10"

text \<open>\<^verbatim>\<open>JSMPEG_MAGIC = b'jsmp'\<close>: the four ASCII codes.\<close>

definition JSMPEG_MAGIC :: bytes where
  "JSMPEG_MAGIC = [0x6A, 0x73, 0x6D, 0x70]"

subsection \<open>The handshake record: \<^verbatim>\<open>Struct('>4sHH')\<close>\<close>

text \<open>
  \<^verbatim>\<open>4s\<close> packs a byte string into exactly four bytes (cut, or padded with zero bytes);
  \<^verbatim>\<open>H\<close> packs an integer of 0..65535 into two bytes and raises \<^verbatim>\<open>struct.error\<close>
  outside that range; \<^verbatim>\<open>>\<close> is big-endian without padding between the fields.
\<close>

definition pack_4s :: "bytes \<Rightarrow> bytes" where
  "pack_4s b = take 4 b @ replicate (4 - length b) 0"

definition pack_H :: "int \<Rightarrow> exn + bytes" where
  "pack_H v =
     (if 0 \<le> v \<and> v \<le> 65535
      then Inr [word_of_int (v div 256), word_of_int (v mod 256)]
      else Inl StructError)"

definition JSMPEG_HEADER_pack :: "bytes \<Rightarrow> int \<Rightarrow> int \<Rightarrow> exn + bytes" where
  "JSMPEG_HEADER_pack magic w h =
     (case pack_H w of
        Inl e \<Rightarrow> Inl e
      | Inr wb \<Rightarrow>
          (case pack_H h of
             Inl e \<Rightarrow> Inl e
           | Inr hb \<Rightarrow> Inr (pack_4s magic @ wb @ hb)))"

text \<open>Reading a big-endian 16-bit field back, as the viewer does.\<close>

definition unpack_H :: "bytes \<Rightarrow> int" where
  "unpack_H b = uint (b ! 0) * 256 + uint (b ! 1)"

subsection \<open>Viewer connections\<close>

text \<open>
  A viewer connection (a ws4py \<^verbatim>\<open>WebSocket\<close>): whether it is terminated, and the
  messages written to its socket so far, each with its binary flag. \<^verbatim>\<open>send\<close> on a
  terminated connection raises.
\<close>

record websocket =
  terminated :: bool
  sent :: "(bytes \<times> bool) list"

definition send :: "bytes \<Rightarrow> bool \<Rightarrow> websocket \<Rightarrow> exn + websocket" where
  "send payload binary ws =
     (if terminated ws then Inl RuntimeError
      else Inr (ws\<lparr>sent := sent ws @ [(payload, binary)]\<rparr>))"

text \<open>\<^verbatim>\<open>StreamingWebSocket.opened\<close> (lines 102--104).\<close>

definition opened :: "websocket \<Rightarrow> exn + websocket" where
  "opened ws =
     (case JSMPEG_HEADER_pack JSMPEG_MAGIC WIDTH HEIGHT of
        Inl e \<Rightarrow> Inl e
      | Inr hdr \<Rightarrow> send hdr True ws)"

subsection \<open>The transcoder process (\<^verbatim>\<open>Popen\<close>) and the frame sink (\<^verbatim>\<open>BroadcastOutput\<close>)\<close>

text \<open>
  The \<^verbatim>\<open>Popen\<close> object as the server sees it: whether the pipe to the child's standard
  input is closed, whether the server's read handle on the child's standard output is
  closed, the bytes the child has written and nobody has read yet, and the exit status
  \<^verbatim>\<open>poll()\<close> reports (\<open>None\<close> while the child runs).
\<close>

record popen =
  stdin_closed :: bool
  stdout_closed :: bool
  stdout_pipe :: bytes
  stdin_pipe :: bytes
  returncode :: "int option"

text \<open>
  What the child decides: it reads its standard input to the end (\<^verbatim>\<open>-i -\<close>), and after
  the end of input it takes \<open>exits_after\<close> ticks to terminate (\<open>None\<close>: it never does),
  with status \<open>exit_status\<close>.
\<close>

record transcoder =
  exits_after :: "nat option"
  exit_status :: int

text \<open>
  \<^verbatim>\<open>Popen.wait(timeout=None)\<close>: blocks until the child terminates and stores its status;
  with a timeout it raises \<^verbatim>\<open>TimeoutExpired\<close> when the time is over. The result is
  \<open>None\<close> when the call never returns, and otherwise the ticks it blocked, the object
  and the exception raised, if any.
\<close>

definition Popen_wait ::
    "nat option \<Rightarrow> transcoder \<Rightarrow> popen \<Rightarrow> (nat \<times> popen \<times> exn option) option" where
  "Popen_wait timeout child p =
     (case returncode p of
        Some rc \<Rightarrow> Some (0, p, None)
      | None \<Rightarrow>
          (case (if stdin_closed p then exits_after child else None) of
             Some n \<Rightarrow>
               (case timeout of
                  None \<Rightarrow> Some (n, p\<lparr>returncode := Some (exit_status child)\<rparr>, None)
                | Some t \<Rightarrow>
                    if n \<le> t then Some (n, p\<lparr>returncode := Some (exit_status child)\<rparr>, None)
                    else Some (t, p, Some TimeoutExpired))
           | None \<Rightarrow>
               (case timeout of
                  None \<Rightarrow> None
                | Some t \<Rightarrow> Some (t, p, Some TimeoutExpired))))"

text \<open>\<^verbatim>\<open>BroadcastOutput.write\<close> (lines 124--125): the frame goes to the child's input.\<close>

definition write_frame :: "bytes \<Rightarrow> popen \<Rightarrow> exn + popen" where
  "write_frame b p =
     (if stdin_closed p then Inl ValueError
      else Inr (p\<lparr>stdin_pipe := stdin_pipe p @ b\<rparr>))"

text \<open>
  \<^verbatim>\<open>BroadcastOutput.flush\<close> (lines 127--130): \<^verbatim>\<open>stdin.close()\<close>, then \<^verbatim>\<open>wait()\<close>
  with no timeout.
\<close>

definition flush :: "transcoder \<Rightarrow> popen \<Rightarrow> (nat \<times> popen \<times> exn option) option" where
  "flush child p = Popen_wait None child (p\<lparr>stdin_closed := True\<rparr>)"

subsection \<open>The broadcast relay (\<^verbatim>\<open>BroadcastThread\<close>)\<close>

text \<open>
  \<^verbatim>\<open>read1(n)\<close> returns at most \<open>n\<close> of the bytes waiting in the pipe and leaves the
  rest there; on a closed handle it raises \<^verbatim>\<open>ValueError\<close>.
\<close>

definition read1 :: "nat \<Rightarrow> popen \<Rightarrow> exn + (bytes \<times> popen)" where
  "read1 n p =
     (if stdout_closed p then Inl ValueError
      else Inr (take n (stdout_pipe p), p\<lparr>stdout_pipe := drop n (stdout_pipe p)\<rparr>))"

definition poll :: "popen \<Rightarrow> int option" where
  "poll p = returncode p"

definition close_stdout :: "popen \<Rightarrow> popen" where
  "close_stdout p = p\<lparr>stdout_closed := True\<rparr>"

text \<open>
  Modelled from the spec: the registry's \<^verbatim>\<open>manager.broadcast\<close> is ws4py's and not in
  the repository. Section 4.2: a broadcast to a viewer whose socket has since closed is
  caught and treated as a silent removal; every other viewer gets the message.
\<close>

definition broadcast :: "bytes \<Rightarrow> bool \<Rightarrow> (nat \<rightharpoonup> websocket) \<Rightarrow> (nat \<rightharpoonup> websocket)" where
  "broadcast message binary wss =
     (\<lambda>fd. case wss fd of
             None \<Rightarrow> None
           | Some ws \<Rightarrow>
               (case send message binary ws of
                  Inl e \<Rightarrow> None
                | Inr ws' \<Rightarrow> Some ws'))"

text \<open>
  Modelled from the spec: accepting a connection is ws4py's too. Section 4.3: the
  handshake is sent at once, and after the handshake the connection is added to the
  broadcastable set.
\<close>

definition accept :: "nat \<times> websocket \<Rightarrow> (nat \<rightharpoonup> websocket) \<Rightarrow> (nat \<rightharpoonup> websocket)" where
  "accept c wss =
     (case opened (snd c) of
        Inl e \<Rightarrow> wss
      | Inr ws' \<Rightarrow> wss(fst c \<mapsto> ws'))"

definition hangup :: "nat \<Rightarrow> (nat \<rightharpoonup> websocket) \<Rightarrow> (nat \<rightharpoonup> websocket)" where
  "hangup fd wss =
     (case wss fd of
        None \<Rightarrow> wss
      | Some ws \<Rightarrow> wss(fd \<mapsto> ws\<lparr>terminated := True\<rparr>))"

text \<open>
  The relay thread shares the transcoder and the registry with the rest of the system.
  What the others did since the relay's previous read is one \<open>iteration\<close> of the trace:
  the connections the socket server accepted, the viewers whose socket closed, the bytes
  the transcoder wrote, and the exit status the operating system reports now.
\<close>

record iteration =
  connects :: "(nat \<times> websocket) list"
  hangups :: "nat list"
  arrived :: bytes
  status :: "int option"

record relay =
  converter :: popen
  websockets :: "nat \<rightharpoonup> websocket"

definition environment :: "iteration \<Rightarrow> relay \<Rightarrow> relay" where
  "environment it s =
     \<lparr>converter = (converter s)\<lparr>stdout_pipe := stdout_pipe (converter s) @ arrived it,
                                returncode := status it\<rparr>,
      websockets = fold hangup (hangups it) (fold accept (connects it) (websockets s))\<rparr>"

text \<open>
  \<^verbatim>\<open>BroadcastThread.run\<close> (lines 139--148). The loop has no bound of its own: on a
  finite trace the result is \<open>None\<close> when the loop is still running at the end of the
  trace, and otherwise the state it left and the exception that ended it, if any.
  \<open>run\<close> adds the \<^verbatim>\<open>finally\<close> clause.
\<close>

fun run_loop :: "iteration list \<Rightarrow> relay \<Rightarrow> (relay \<times> exn option) option" where
  "run_loop [] s = None"
| "run_loop (it # its) s =
     (let s1 = environment it s in
      case read1 32768 (converter s1) of
        Inl e \<Rightarrow> Some (s1, Some e)
      | Inr (buf, c) \<Rightarrow>
          if buf \<noteq> [] then
            run_loop its (s1\<lparr>converter := c, websockets := broadcast buf True (websockets s1)\<rparr>)
          else if poll c \<noteq> None then Some (s1\<lparr>converter := c\<rparr>, None)
          else run_loop its (s1\<lparr>converter := c\<rparr>))"

definition run :: "iteration list \<Rightarrow> relay \<Rightarrow> (relay \<times> exn option) option" where
  "run its s =
     (case run_loop its s of
        None \<Rightarrow> None
      | Some (s', r) \<Rightarrow> Some (s'\<lparr>converter := close_stdout (converter s')\<rparr>, r))"

text \<open>
  The relay in the spec's words, for comparison with \<open>run\<close>: the reads the loop makes
  on a trace, one per iteration, each with the exit status seen after it; the loop stops
  at a read that is empty while the process has exited; the chunks are the non-empty
  reads before that.
\<close>

fun reads :: "iteration list \<Rightarrow> bytes \<Rightarrow> (bytes \<times> int option) list" where
  "reads [] pipe = []"
| "reads (it # its) pipe =
     (take 32768 (pipe @ arrived it), status it) # reads its (drop 32768 (pipe @ arrived it))"

definition finished :: "bytes \<times> int option \<Rightarrow> bool" where
  "finished r = (fst r = [] \<and> snd r \<noteq> None)"

definition chunks :: "iteration list \<Rightarrow> bytes \<Rightarrow> bytes list" where
  "chunks its pipe =
     filter (\<lambda>b. b \<noteq> []) (map fst (takeWhile (\<lambda>r. \<not> finished r) (reads its pipe)))"

definition untouched :: "nat \<Rightarrow> iteration \<Rightarrow> bool" where
  "untouched fd it = (fd \<notin> set (hangups it) \<and> fd \<notin> fst ` set (connects it))"

text \<open>The relay's state after the read of an iteration, before any broadcast.\<close>

definition after_read :: "iteration \<Rightarrow> relay \<Rightarrow> relay" where
  "after_read it s =
     (environment it s)\<lparr>converter :=
        (converter (environment it s))\<lparr>stdout_pipe := drop 32768 (stdout_pipe (converter s) @ arrived it)\<rparr>\<rparr>"

text \<open>Two relay states that differ at most in the viewer on one descriptor.\<close>

definition agree_except :: "nat \<Rightarrow> relay \<Rightarrow> relay \<Rightarrow> bool" where
  "agree_except fdb s t =
     (converter s = converter t \<and> (\<forall>fd. fd \<noteq> fdb \<longrightarrow> websockets s fd = websockets t fd))"

subsection \<open>Text: \<^verbatim>\<open>str\<close>, \<^verbatim>\<open>encode('utf-8')\<close> and \<^verbatim>\<open>string.Template\<close>\<close>

text \<open>
  A \<open>char\<close> stands for a code point below 256. \<^verbatim>\<open>str(n)\<close> of an integer is its
  decimal numeral; UTF-8 writes a code point below 128 as one byte and one of 128..255
  as two.
\<close>

definition digit :: "nat \<Rightarrow> char" where
  "digit d = ''0123456789'' ! d"

function digits :: "nat \<Rightarrow> string" where
  "digits n = (if n < 10 then [digit n] else digits (n div 10) @ [digit (n mod 10)])"
  by pat_completeness auto
termination
  by (relation "measure (\<lambda>n. n)") auto

definition str_int :: "int \<Rightarrow> string" where
  "str_int i = (if i < 0 then CHR ''-'' # digits (nat (- i)) else digits (nat i))"

definition encode_utf8 :: "string \<Rightarrow> bytes" where
  "encode_utf8 s =
     concat (map (\<lambda>c. if (of_char c :: nat) < 128 then [of_nat (of_char c)]
                       else [of_nat (192 + of_char c div 64), of_nat (128 + of_char c mod 64)]) s)"

text \<open>
  \<^verbatim>\<open>string.Template\<close>: after a \<^verbatim>\<open>$\<close> the pattern tries, in this order, a second
  \<^verbatim>\<open>$\<close> (an escape), an identifier \<^verbatim>\<open>[_a-z][_a-z0-9]*\<close> (letters of either case, as
  long as it goes), an identifier in braces, and otherwise the \<^verbatim>\<open>$\<close> is invalid.
  \<^verbatim>\<open>safe_substitute\<close> replaces a placeholder whose name is a key of the mapping, writes
  an escape as one \<^verbatim>\<open>$\<close>, and leaves every other match as it stands.
\<close>

definition id_start :: "char \<Rightarrow> bool" where
  "id_start c =
     (c = CHR ''_'' \<or> (97 \<le> (of_char c :: nat) \<and> (of_char c :: nat) \<le> 122)
      \<or> (65 \<le> (of_char c :: nat) \<and> (of_char c :: nat) \<le> 90))"

definition id_char :: "char \<Rightarrow> bool" where
  "id_char c = (id_start c \<or> (48 \<le> (of_char c :: nat) \<and> (of_char c :: nat) \<le> 57))"

datatype token = Literal char | Escaped | Named string | Braced string | Invalid

function scan :: "string \<Rightarrow> token list" where
  "scan [] = []"
| "scan (c # cs) =
     (if c \<noteq> CHR ''$'' then Literal c # scan cs
      else
        (case cs of
           [] \<Rightarrow> [Invalid]
         | d # ds \<Rightarrow>
             if d = CHR ''$'' then Escaped # scan ds
             else if id_start d then Named (takeWhile id_char cs) # scan (dropWhile id_char cs)
             else if d = CHR ''{'' then
               (case ds of
                  [] \<Rightarrow> Invalid # scan cs
                | i # is \<Rightarrow>
                    if id_start i then
                      (case dropWhile id_char ds of
                         [] \<Rightarrow> Invalid # scan cs
                       | e # es \<Rightarrow>
                           if e = CHR ''}'' then Braced (takeWhile id_char ds) # scan es
                           else Invalid # scan cs)
                    else Invalid # scan cs)
             else Invalid # scan cs))"
  by pat_completeness auto
termination
  apply (relation "measure length")
      apply simp_all
  subgoal for c cs d ds
    using length_dropWhile_le [of id_char ds] by simp
  subgoal for c cs d ds i js e es
    using length_dropWhile_le [of id_char js] by (auto split: if_splits)
  done

definition render :: "(string \<rightharpoonup> string) \<Rightarrow> token \<Rightarrow> string" where
  "render mapping t =
     (case t of
        Literal c \<Rightarrow> [c]
      | Escaped \<Rightarrow> ''$''
      | Named n \<Rightarrow> (case mapping n of Some v \<Rightarrow> v | None \<Rightarrow> CHR ''$'' # n)
      | Braced n \<Rightarrow> (case mapping n of Some v \<Rightarrow> v | None \<Rightarrow> ''${'' @ n @ ''}'')
      | Invalid \<Rightarrow> ''$'')"

definition safe_substitute :: "(string \<rightharpoonup> string) \<Rightarrow> string \<Rightarrow> string" where
  "safe_substitute mapping tpl = concat (map (render mapping) (scan tpl))"

subsection \<open>The page server (\<^verbatim>\<open>StreamingHttpHandler\<close>)\<close>

text \<open>
  The server object holds the two files read at start-up (lines 96--99). The request is
  its method and path. What the handler writes is the status code, the headers in the
  order sent, and the body.
\<close>

record http_server =
  index_template :: string
  jsmpg_content :: string

record request =
  command :: string
  path :: string

record response =
  code :: int
  headers :: "(string \<times> string) list"
  body :: bytes

text \<open>
  What \<^verbatim>\<open>BaseHTTPRequestHandler\<close> supplies: the version string of the \<^verbatim>\<open>Server\<close>
  header, the formatted current time (\<^verbatim>\<open>date_time_string\<close>), and the error page it
  formats for a status code and a message.
\<close>

record http_lib =
  version_string :: string
  date_time_string :: string
  error_page :: "int \<Rightarrow> string \<Rightarrow> string"

definition send_response :: "http_lib \<Rightarrow> int \<Rightarrow> response \<Rightarrow> response" where
  "send_response lib c r =
     r\<lparr>code := c,
       headers := headers r @ [(''Server'', version_string lib), (''Date'', date_time_string lib)]\<rparr>"

definition send_header :: "string \<Rightarrow> string \<Rightarrow> response \<Rightarrow> response" where
  "send_header k v r = r\<lparr>headers := headers r @ [(k, v)]\<rparr>"

definition wfile_write :: "bytes \<Rightarrow> response \<Rightarrow> response" where
  "wfile_write b r = r\<lparr>body := body r @ b\<rparr>"

text \<open>
  \<^verbatim>\<open>send_error\<close> of \<^verbatim>\<open>http.server\<close> (Python 3.4 and later): the status line, then
  \<^verbatim>\<open>Connection: close\<close>, the type and the length of the error page, and the page itself
  unless the request is a \<^verbatim>\<open>HEAD\<close>.
\<close>

definition send_error :: "http_lib \<Rightarrow> request \<Rightarrow> int \<Rightarrow> string \<Rightarrow> response \<Rightarrow> response" where
  "send_error lib req c message r =
     (let page = encode_utf8 (error_page lib c message);
          r1 = send_response lib c r;
          r2 = send_header ''Connection'' ''close'' r1;
          r3 = send_header ''Content-Type'' ''text/html;charset=utf-8'' r2;
          r4 = send_header ''Content-Length'' (str_int (int (length page))) r3
      in if command req \<noteq> ''HEAD'' \<and> page \<noteq> [] then wfile_write page r4 else r4)"

text \<open>The keyword arguments of \<^verbatim>\<open>dict(...)\<close> in lines 76--78.\<close>

definition template_mapping :: "string \<rightharpoonup> string" where
  "template_mapping =
     map_of [(''WS_PORT'', str_int WS_PORT), (''WIDTH'', str_int WIDTH),
             (''HEIGHT'', str_int HEIGHT), (''COLOR'', COLOR), (''BGCOLOR'', BGCOLOR)]"

definition empty_response :: response where
  "empty_response = \<lparr>code = 0, headers = [], body = []\<rparr>"

text \<open>
  \<^verbatim>\<open>do_GET\<close> (lines 64--89) and \<^verbatim>\<open>do_HEAD\<close> (lines 61--62). \<open>respond\<close> is the
  common tail of the two branches that set a content (lines 82--89).
\<close>

definition respond :: "http_lib \<Rightarrow> request \<Rightarrow> string \<Rightarrow> string \<Rightarrow> response" where
  "respond lib req content_type content =
     (let content = encode_utf8 content;
          r1 = send_response lib 200 empty_response;
          r2 = send_header ''Content-Type'' content_type r1;
          r3 = send_header ''Content-Length'' (str_int (int (length content))) r2;
          r4 = send_header ''Last-Modified'' (date_time_string lib) r3
      in if command req = ''GET'' then wfile_write content r4 else r4)"

definition do_GET :: "http_server \<Rightarrow> http_lib \<Rightarrow> request \<Rightarrow> response" where
  "do_GET srv lib req =
     (if path req = ''/'' then
        send_header ''Location'' ''/index.html'' (send_response lib 301 empty_response)
      else if path req = ''/jsmpg.js'' then
        respond lib req ''application/javascript'' (jsmpg_content srv)
      else if path req = ''/index.html'' then
        respond lib req ''text/html; charset=utf-8''
          (safe_substitute template_mapping (index_template srv))
      else send_error lib req 404 ''File not found'' empty_response)"

definition do_HEAD :: "http_server \<Rightarrow> http_lib \<Rightarrow> request \<Rightarrow> response" where
  "do_HEAD srv lib req = do_GET srv lib req"

text \<open>The value of a header of a response: the first one sent under that name.\<close>

definition header :: "string \<Rightarrow> response \<Rightarrow> string option" where
  "header k r = map_of (headers r) k"

text \<open>
  A token is recognised when it is literal text or a placeholder whose name is one of the
  five keys of the mapping.
\<close>

definition recognised :: "token \<Rightarrow> bool" where
  "recognised t =
     (case t of
        Literal c \<Rightarrow> True
      | Named n \<Rightarrow> n \<in> dom template_mapping
      | Braced n \<Rightarrow> n \<in> dom template_mapping
      | Escaped \<Rightarrow> False
      | Invalid \<Rightarrow> False)"

subsection \<open>Run-state flags and the control surface (lines 177--179, 478--506)\<close>

datatype comment = WATER_COMMENT | NOT_WATER_COMMENT | LOOK_COMMENT

datatype thread = WebsocketThread | HttpThread | BroadcastThread

datatype action =
    Start thread
  | StopRecording
  | Join thread
  | ShutdownHttp
  | ShutdownWebsockets

text \<open>
  The module's globals, with what the module has done to the outside so far: the
  comments posted to the chat channel and the lifecycle calls made, oldest first.
\<close>

record state =
  whileMove :: bool
  water :: bool
  look :: bool
  posted :: "comment list"
  lifecycle :: "action list"

definition setWater :: "bool \<Rightarrow> state \<Rightarrow> state" where
  "setWater b s = s\<lparr>water := b\<rparr>"

definition setLook :: "bool \<Rightarrow> state \<Rightarrow> state" where
  "setLook b s = s\<lparr>look := b\<rparr>"

definition setWhileMove :: "bool \<Rightarrow> state \<Rightarrow> state" where
  "setWhileMove b s = s\<lparr>whileMove := b\<rparr>"

definition getWater :: "state \<Rightarrow> bool" where
  "getWater s = water s"

definition getLook :: "state \<Rightarrow> bool" where
  "getLook s = look s"

definition getWhileMove :: "state \<Rightarrow> bool" where
  "getWhileMove s = whileMove s"

text \<open>A call on the control surface, made by the chat plugin from another thread.\<close>

datatype control = SetWater bool | SetLook bool | SetWhileMove bool

fun call :: "control \<Rightarrow> state \<Rightarrow> state" where
  "call (SetWater b) s = setWater b s"
| "call (SetLook b) s = setLook b s"
| "call (SetWhileMove b) s = setWhileMove b s"

text \<open>
  A statement leaves the state it reached and the exception it raised, if any: an
  assignment to a global made before the exception stays made. \<open>statements\<close> runs a
  block, stopping at the first statement that raises; \<open>except_KeyboardInterrupt\<close> is
  the clause \<^verbatim>\<open>except KeyboardInterrupt: pass\<close>; \<open>finally_do\<close> runs a \<^verbatim>\<open>finally\<close>
  block, whose own exception replaces the pending one.
\<close>

type_synonym outcome = "state \<times> exn option"

fun statements :: "(state \<Rightarrow> outcome) list \<Rightarrow> state \<Rightarrow> outcome" where
  "statements [] s = (s, None)"
| "statements (f # fs) s =
     (case f s of
        (s', Some e) \<Rightarrow> (s', Some e)
      | (s', None) \<Rightarrow> statements fs s')"

definition except_KeyboardInterrupt :: "outcome \<Rightarrow> outcome" where
  "except_KeyboardInterrupt r =
     (case r of
        (s, Some KeyboardInterrupt) \<Rightarrow> (s, None)
      | _ \<Rightarrow> r)"

definition finally_do :: "outcome \<Rightarrow> (state \<Rightarrow> outcome) \<Rightarrow> outcome" where
  "finally_do r f =
     (case r of
        (s, pending) \<Rightarrow>
          (case f s of
             (s', Some e) \<Rightarrow> (s', Some e)
           | (s', None) \<Rightarrow> (s', pending)))"

text \<open>
  \<^verbatim>\<open>sendSlack\<close> (lines 468--476), with the \<^verbatim>\<open>open\<close> of the picture before it: the
  comment is posted unless the file or the network fails.
\<close>

definition sendSlack :: "exn option \<Rightarrow> comment \<Rightarrow> state \<Rightarrow> outcome" where
  "sendSlack fault c s =
     (case fault of
        Some e \<Rightarrow> (s, Some e)
      | None \<Rightarrow> (s\<lparr>posted := posted s @ [c]\<rparr>, None))"

text \<open>A library call that changes no global: it returns or raises.\<close>

definition library_call :: "exn option \<Rightarrow> state \<Rightarrow> outcome" where
  "library_call fault s = (s, fault)"

text \<open>A call on a thread, a server or the camera: recorded, then it returns or raises.\<close>

definition perform :: "(action \<Rightarrow> exn option) \<Rightarrow> action \<Rightarrow> state \<Rightarrow> outcome" where
  "perform fault a s = (s\<lparr>lifecycle := lifecycle s @ [a]\<rparr>, fault a)"

subsection \<open>The capture cycles: \<^verbatim>\<open>single\<close>, \<^verbatim>\<open>main\<close>, \<^verbatim>\<open>autoLook\<close>\<close>

text \<open>
  What one capture cycle meets: an exception in the capture and scoring calls (or none),
  the score the classifier returns, an exception in the notification (or none), an
  exception in the calls after it (or none). In the loops, also the control calls that
  arrive before the loop's test and those that arrive during the two-second wait.
  Scores are floating-point numbers in the source and reals here.
\<close>

record probe =
  capture_fault :: "exn option"
  score :: real
  notify_fault :: "exn option"
  tail_fault :: "exn option"

record cycle = probe +
  calls_before :: "control list"
  calls_during :: "control list"

record locals =
  mean_NO :: nat
  score_mean :: "real list"
  scorelist :: "real list"
  scorecheck :: bool

definition initial_locals :: locals where
  "initial_locals = \<lparr>mean_NO = 0, score_mean = replicate 10 0, scorelist = [], scorecheck = True\<rparr>"

definition np_mean :: "real list \<Rightarrow> real" where
  "np_mean xs = sum_list xs / real (length xs)"

definition in_band :: "real \<Rightarrow> bool" where
  "in_band m = (SCORE_THRESHOLD_UNDER < m \<and> m < SCORE_THRESHOLD_UPPER)"

text \<open>Lines 240--243: the rolling window of ten scores.\<close>

definition window_update :: "real \<Rightarrow> locals \<Rightarrow> locals" where
  "window_update x l =
     (let sm = (score_mean l)[mean_NO l := x];
          n = mean_NO l + 1
      in l\<lparr>score_mean := sm, mean_NO := (if n = length sm then 0 else n)\<rparr>)"

text \<open>Lines 441--445 (and 265--269, 365--369): the look intent.\<close>

definition notify_look :: "exn option \<Rightarrow> state \<Rightarrow> outcome" where
  "notify_look fault s =
     statements [sendSlack fault LOOK_COMMENT, \<lambda>s. (s\<lparr>look := False\<rparr>, None)] s"

text \<open>Lines 446--455 (and 370--379): the water intent.\<close>

definition notify_water :: "exn option \<Rightarrow> real \<Rightarrow> state \<Rightarrow> outcome" where
  "notify_water fault m s =
     statements
       [if in_band m then sendSlack fault WATER_COMMENT else sendSlack fault NOT_WATER_COMMENT,
        \<lambda>s. (s\<lparr>water := False\<rparr>, None)] s"

definition consume_intents :: "exn option \<Rightarrow> real \<Rightarrow> state \<Rightarrow> outcome" where
  "consume_intents fault m s =
     (if look s then notify_look fault s
      else if water s then notify_water fault m s
      else (s, None))"

text \<open>
  \<^verbatim>\<open>single\<close> (lines 403--465). Opening the camera is outside the \<^verbatim>\<open>try\<close>; the window
  of scores is new in every call, so the mean is a tenth of the score; the \<^verbatim>\<open>finally\<close>
  clause only prints. The function is modelled alone, without calls from other threads.
\<close>

definition single :: "exn option \<Rightarrow> 'a probe_scheme \<Rightarrow> state \<Rightarrow> outcome" where
  "single camera_fault c s =
     (case camera_fault of
        Some e \<Rightarrow> (s, Some e)
      | None \<Rightarrow>
          except_KeyboardInterrupt
            (statements
               [library_call (capture_fault c),
                consume_intents (notify_fault c)
                  (np_mean (score_mean (window_update (score c) initial_locals))),
                library_call (tail_fault c)] s))"

text \<open>The body of the loop of \<^verbatim>\<open>autoLook\<close> (lines 335--380).\<close>

definition autoLook_cycle :: "cycle \<Rightarrow> locals \<Rightarrow> state \<Rightarrow> locals \<times> outcome" where
  "autoLook_cycle c l s =
     (let l1 = window_update (score c) l
      in (l1,
          statements
            [\<lambda>s. (fold call (calls_during c) s, None),
             library_call (capture_fault c),
             consume_intents (notify_fault c) (np_mean (score_mean l1)),
             library_call (tail_fault c)] s))"

text \<open>
  The body of the loop of \<^verbatim>\<open>main\<close> (lines 224--275): the score list keeps the score
  of the cycle before, and a score that moved by 0.2 or more suspends the
  notifications of this cycle.
\<close>

definition main_cycle :: "cycle \<Rightarrow> locals \<Rightarrow> state \<Rightarrow> locals \<times> outcome" where
  "main_cycle c l s =
     (let l1 = window_update (score c) l;
          nowscore = np_mean (score_mean l1);
          ok = (if list_ex (\<lambda>item. \<not> (item - 0.2 < nowscore \<and> nowscore < item + 0.2)) (scorelist l1)
                then False else scorecheck l1);
          kept = (if 0 < length (scorelist l1) \<and> length (scorelist l1) < 5
                  then tl (scorelist l1) else scorelist l1)
      in (l1\<lparr>scorelist := kept @ [nowscore], scorecheck := True\<rparr>,
          statements
            [\<lambda>s. (fold call (calls_during c) s, None),
             library_call (capture_fault c),
             \<lambda>s. if ok \<and> look s then notify_look (notify_fault c) s else (s, None),
             \<lambda>s. if ok \<and> whileMove s \<and> in_band nowscore
                  then sendSlack (notify_fault c) WATER_COMMENT s else (s, None),
             library_call (tail_fault c)] s))"

text \<open>
  The loops \<^verbatim>\<open>while whileMove:\<close>. They have no bound of their own: on a finite trace of
  cycles the result is \<open>None\<close> when the loop is still running at the end of the trace.
\<close>

fun capture_loop ::
    "(cycle \<Rightarrow> locals \<Rightarrow> state \<Rightarrow> locals \<times> outcome) \<Rightarrow> cycle list \<Rightarrow> locals \<Rightarrow> state \<Rightarrow> outcome option" where
  "capture_loop iter [] l s = (if whileMove s then None else Some (s, None))"
| "capture_loop iter (c # cs) l s =
     (let s1 = fold call (calls_before c) s in
      if \<not> whileMove s1 then Some (s1, None)
      else
        (case iter c l s1 of
           (l', s2, Some e) \<Rightarrow> Some (s2, Some e)
         | (l', s2, None) \<Rightarrow> capture_loop iter cs l' s2))"

text \<open>The \<^verbatim>\<open>finally\<close> clause of \<^verbatim>\<open>main\<close> and \<^verbatim>\<open>autoLook\<close> (lines 281--294, 388--401).\<close>

definition cleanup :: "(action \<Rightarrow> exn option) \<Rightarrow> state \<Rightarrow> outcome" where
  "cleanup fault s =
     statements
       [\<lambda>s. (s\<lparr>whileMove := True\<rparr>, None),
        perform fault StopRecording,
        perform fault (Join BroadcastThread),
        perform fault ShutdownHttp,
        perform fault ShutdownWebsockets,
        perform fault (Join HttpThread),
        perform fault (Join WebsocketThread)] s"

text \<open>The calls of the clause after the flag is reset, in the order written.\<close>

definition cleanup_steps :: "action list" where
  "cleanup_steps =
     [StopRecording, Join BroadcastThread, ShutdownHttp, ShutdownWebsockets,
      Join HttpThread, Join WebsocketThread]"

text \<open>
  \<^verbatim>\<open>main\<close> (lines 181--294) and \<^verbatim>\<open>autoLook\<close> (lines 296--401): the set-up before the
  \<^verbatim>\<open>try\<close> (camera, servers, transcoder, start of the recording), whose exception leaves
  the function at once; the three thread starts and the loop inside the \<^verbatim>\<open>try\<close>; the
  \<^verbatim>\<open>except KeyboardInterrupt\<close> clause; the \<^verbatim>\<open>finally\<close> clause.
\<close>

definition continuous ::
    "(cycle \<Rightarrow> locals \<Rightarrow> state \<Rightarrow> locals \<times> outcome) \<Rightarrow> exn option \<Rightarrow> (action \<Rightarrow> exn option)
      \<Rightarrow> cycle list \<Rightarrow> state \<Rightarrow> outcome option" where
  "continuous iter setup_fault fault cs s =
     (case setup_fault of
        Some e \<Rightarrow> Some (s, Some e)
      | None \<Rightarrow>
          (case (case statements
                        [perform fault (Start WebsocketThread),
                         perform fault (Start HttpThread),
                         perform fault (Start BroadcastThread)] s of
                   (s1, Some e) \<Rightarrow> Some (s1, Some e)
                 | (s1, None) \<Rightarrow> capture_loop iter cs initial_locals s1) of
             None \<Rightarrow> None
           | Some r \<Rightarrow> Some (finally_do (except_KeyboardInterrupt r) (cleanup fault))))"

definition main :: "exn option \<Rightarrow> (action \<Rightarrow> exn option) \<Rightarrow> cycle list \<Rightarrow> state \<Rightarrow> outcome option" where
  "main setup_fault fault cs s = continuous main_cycle setup_fault fault cs s"

definition autoLook :: "exn option \<Rightarrow> (action \<Rightarrow> exn option) \<Rightarrow> cycle list \<Rightarrow> state \<Rightarrow> outcome option" where
  "autoLook setup_fault fault cs s = continuous autoLook_cycle setup_fault fault cs s"

subsection \<open>Example inputs\<close>

text \<open>
  A live viewer and a terminated one; a relay with the live viewer on descriptor 1 and an
  empty pipe; a trace in which the transcoder writes two bytes and then has exited.
\<close>

definition ws0 :: websocket where
  "ws0 = \<lparr>terminated = False, sent = []\<rparr>"

definition wb0 :: websocket where
  "wb0 = \<lparr>terminated = True, sent = []\<rparr>"

definition s0 :: relay where
  "s0 = \<lparr>converter = \<lparr>stdin_closed = False, stdout_closed = False, stdout_pipe = [],
                       stdin_pipe = [], returncode = None\<rparr>,
         websockets = [1 \<mapsto> ws0]\<rparr>"

definition its0 :: "iteration list" where
  "its0 =
     [\<lparr>connects = [], hangups = [], arrived = [7, 8], status = None\<rparr>,
      \<lparr>connects = [], hangups = [], arrived = [], status = Some 0\<rparr>]"

text \<open>The same trace, with a viewer connecting on descriptor 2 in the first iteration.\<close>

definition its1 :: "iteration list" where
  "its1 =
     [\<lparr>connects = [(2, ws0)], hangups = [], arrived = [7, 8], status = None\<rparr>,
      \<lparr>connects = [], hangups = [], arrived = [], status = Some 0\<rparr>]"

text \<open>A running transcoder object with nothing in its pipes.\<close>

definition p0 :: popen where
  "p0 = \<lparr>stdin_closed = False, stdout_closed = False, stdout_pipe = [], stdin_pipe = [],
          returncode = None\<rparr>"

text \<open>A state before a run: the continue flag set, no intent, nothing done yet.\<close>

definition st0 :: state where
  "st0 = \<lparr>whileMove = True, water = False, look = False, posted = [], lifecycle = []\<rparr>"

text \<open>
  A cycle in which nothing fails and nobody calls, with a score whose mean over a new
  window is 7; and the same as the input of one \<^verbatim>\<open>single\<close> call.
\<close>

definition quiet :: cycle where
  "quiet = \<lparr>capture_fault = None, score = 70, notify_fault = None, tail_fault = None,
             calls_before = [], calls_during = []\<rparr>"

definition pr0 :: probe where
  "pr0 = \<lparr>capture_fault = None, score = 70, notify_fault = None, tail_fault = None\<rparr>"

text \<open>
  Two traces of cycles: one quiet cycle and then a stop request before the next test
  of the flag; one quiet cycle and then a keyboard interrupt during the capture.
\<close>

definition cs_stop :: "cycle list" where
  "cs_stop = [quiet, quiet\<lparr>calls_before := [SetWhileMove False]\<rparr>]"

definition cs_interrupt :: "cycle list" where
  "cs_interrupt = [quiet, quiet\<lparr>capture_fault := Some KeyboardInterrupt\<rparr>]"

text \<open>A page server with two small files, and the library's part of the answers.\<close>

definition srv0 :: http_server where
  "srv0 = \<lparr>index_template = ''w=${WIDTH} h=$HEIGHT p=${WS_PORT}'', jsmpg_content = ''var x;''\<rparr>"

definition lib0 :: http_lib where
  "lib0 = \<lparr>version_string = ''BaseHTTP/0.6'', date_time_string = ''Thu, 01 Jan 1970 00:00:00 GMT'',
            error_page = (\<lambda>c m. m)\<rparr>"

section \<open>Properties\<close>

subsection \<open>The handshake and the relay\<close>

lemma pack_H_WIDTH: "pack_H WIDTH = Inr [0x02, 0x80]"
  by (simp add: pack_H_def WIDTH_def)

lemma pack_H_HEIGHT: "pack_H HEIGHT = Inr [0x01, 0xE0]"
  by (simp add: pack_H_def HEIGHT_def)

lemma handshake_bytes:
  "JSMPEG_HEADER_pack JSMPEG_MAGIC WIDTH HEIGHT =
     Inr [0x6A, 0x73, 0x6D, 0x70, 0x02, 0x80, 0x01, 0xE0]"
  by (simp add: JSMPEG_HEADER_pack_def pack_H_WIDTH pack_H_HEIGHT pack_4s_def JSMPEG_MAGIC_def)

lemma opened_eq:
  "opened ws =
     (if terminated ws then Inl RuntimeError
      else Inr (ws\<lparr>sent := sent ws @ [([0x6A, 0x73, 0x6D, 0x70, 0x02, 0x80, 0x01, 0xE0], True)]\<rparr>))"
  by (simp add: opened_def handshake_bytes send_def)

lemma fold_hangup_other: "fd \<notin> set hs \<Longrightarrow> fold hangup hs wss fd = wss fd"
  by (induction hs arbitrary: wss) (auto simp: hangup_def split: option.splits)

lemma fold_accept_other: "fd \<notin> fst ` set cs \<Longrightarrow> fold accept cs wss fd = wss fd"
  by (induction cs arbitrary: wss) (auto simp: accept_def split: sum.splits)

lemma environment_untouched:
  "untouched fd it \<Longrightarrow> websockets (environment it s) fd = websockets s fd"
  by (simp add: environment_def untouched_def fold_hangup_other fold_accept_other)

lemma environment_converter:
  "converter (environment it s) =
     (converter s)\<lparr>stdout_pipe := stdout_pipe (converter s) @ arrived it, returncode := status it\<rparr>"
  by (simp add: environment_def)

lemma broadcast_live:
  "wss fd = Some ws \<Longrightarrow> \<not> terminated ws \<Longrightarrow>
     broadcast m b wss fd = Some (ws\<lparr>sent := sent ws @ [(m, b)]\<rparr>)"
  by (simp add: broadcast_def send_def)

lemma broadcast_terminated:
  "wss fd = Some ws \<Longrightarrow> terminated ws \<Longrightarrow> broadcast m b wss fd = None"
  by (simp add: broadcast_def send_def)

lemma take_empty_iff: "(take 32768 xs = []) = (xs = [])"
  by simp

lemma chunks_Nil: "chunks [] pipe = []"
  by (simp add: chunks_def)

lemma chunks_Cons:
  "chunks (it # its) pipe =
     (if take 32768 (pipe @ arrived it) \<noteq> []
      then take 32768 (pipe @ arrived it) # chunks its (drop 32768 (pipe @ arrived it))
      else if status it \<noteq> None then []
      else chunks its [])"
  by (auto simp: chunks_def finished_def)

lemma environment_closed [simp]:
  "stdout_closed (converter (environment it s)) = stdout_closed (converter s)"
  by (simp add: environment_def)

lemma environment_pipe [simp]:
  "stdout_pipe (converter (environment it s)) = stdout_pipe (converter s) @ arrived it"
  by (simp add: environment_def)

lemma environment_returncode [simp]:
  "returncode (converter (environment it s)) = status it"
  by (simp add: environment_def)

lemma run_loop_step:
  "\<not> stdout_closed (converter s) \<Longrightarrow>
   run_loop (it # its) s =
     (if take 32768 (stdout_pipe (converter s) @ arrived it) \<noteq> [] then
        run_loop its ((after_read it s)\<lparr>websockets :=
          broadcast (take 32768 (stdout_pipe (converter s) @ arrived it)) True
            (websockets (environment it s))\<rparr>)
      else if status it \<noteq> None then Some (after_read it s, None)
      else run_loop its (after_read it s))"
  by (simp add: Let_def read1_def poll_def after_read_def del: take_append drop_append)

lemma after_read_simps [simp]:
  "stdout_closed (converter (after_read it s)) = stdout_closed (converter s)"
  "stdout_pipe (converter (after_read it s)) = drop 32768 (stdout_pipe (converter s) @ arrived it)"
  "returncode (converter (after_read it s)) = status it"
  "websockets (after_read it s) = websockets (environment it s)"
  by (simp_all add: after_read_def)

declare run_loop.simps(2) [simp del] take_append [simp del] drop_append [simp del]

lemma run_loop_ends_iff:
  "\<not> stdout_closed (converter s) \<Longrightarrow>
   (run_loop its s \<noteq> None) = (\<exists>r\<in>set (reads its (stdout_pipe (converter s))). finished r)"
proof (induction its arbitrary: s)
  case Nil
  then show ?case by simp
next
  case (Cons it its)
  show ?case
  proof (cases "take 32768 (stdout_pipe (converter s) @ arrived it) \<noteq> []")
    case True
    then show ?thesis
      using Cons.prems Cons.IH [of "(after_read it s)\<lparr>websockets :=
          broadcast (take 32768 (stdout_pipe (converter s) @ arrived it)) True
            (websockets (environment it s))\<rparr>"]
      by (auto simp add: run_loop_step finished_def)
  next
    case False
    then show ?thesis
      using Cons.prems Cons.IH [of "after_read it s"]
      by (auto simp add: run_loop_step finished_def)
  qed
qed

lemma run_loop_result:
  "\<not> stdout_closed (converter s) \<Longrightarrow> run_loop its s = Some (s', r) \<Longrightarrow>
     r = None \<and> \<not> stdout_closed (converter s') \<and> stdout_pipe (converter s') = []
     \<and> returncode (converter s') \<noteq> None"
proof (induction its arbitrary: s)
  case Nil
  then show ?case by simp
next
  case (Cons it its)
  show ?case
  proof (cases "take 32768 (stdout_pipe (converter s) @ arrived it) \<noteq> []")
    case True
    then show ?thesis
      using Cons.prems Cons.IH [of "(after_read it s)\<lparr>websockets :=
          broadcast (take 32768 (stdout_pipe (converter s) @ arrived it)) True
            (websockets (environment it s))\<rparr>"]
      by (simp add: run_loop_step)
  next
    case False
    then show ?thesis
      using Cons.prems Cons.IH [of "after_read it s"]
      by (auto simp add: run_loop_step split: if_splits)
  qed
qed

lemma run_loop_viewer:
  "\<not> stdout_closed (converter s) \<Longrightarrow> run_loop its s = Some (s', r) \<Longrightarrow>
   websockets s fd = Some ws \<Longrightarrow> \<not> terminated ws \<Longrightarrow> \<forall>i\<in>set its. untouched fd i \<Longrightarrow>
     \<exists>ws'. websockets s' fd = Some ws' \<and> \<not> terminated ws' \<and>
       sent ws' = sent ws @ map (\<lambda>c. (c, True)) (chunks its (stdout_pipe (converter s)))"
proof (induction its arbitrary: s ws)
  case Nil
  then show ?case by simp
next
  case (Cons it its)
  let ?buf = "take 32768 (stdout_pipe (converter s) @ arrived it)"
  have env: "websockets (environment it s) fd = Some ws"
    using Cons.prems by (simp add: environment_untouched)
  show ?case
  proof (cases "?buf \<noteq> []")
    case True
    let ?s1 = "(after_read it s)\<lparr>websockets := broadcast ?buf True (websockets (environment it s))\<rparr>"
    have "run_loop its ?s1 = Some (s', r)"
      using Cons.prems True by (simp add: run_loop_step)
    moreover have "websockets ?s1 fd = Some (ws\<lparr>sent := sent ws @ [(?buf, True)]\<rparr>)"
      using env Cons.prems by (simp add: broadcast_live)
    ultimately obtain ws' where "websockets s' fd = Some ws'" "\<not> terminated ws'"
      "sent ws' = sent (ws\<lparr>sent := sent ws @ [(?buf, True)]\<rparr>)
         @ map (\<lambda>c. (c, True)) (chunks its (stdout_pipe (converter ?s1)))"
      using Cons.IH [of ?s1 "ws\<lparr>sent := sent ws @ [(?buf, True)]\<rparr>"] Cons.prems
      by auto
    then show ?thesis using True by (simp add: chunks_Cons)
  next
    case False
    show ?thesis
    proof (cases "status it")
      case None
      then have "run_loop its (after_read it s) = Some (s', r)"
        using Cons.prems False by (simp add: run_loop_step)
      then show ?thesis
        using Cons.IH [of "after_read it s" ws] Cons.prems env False None
        by (simp add: chunks_Cons)
    next
      case (Some rc)
      then have "s' = after_read it s"
        using Cons.prems False by (simp add: run_loop_step)
      then show ?thesis
        using env Cons.prems False Some by (simp add: chunks_Cons)
    qed
  qed
qed

lemma chunks_bounded: "\<forall>c\<in>set (chunks its pipe). c \<noteq> [] \<and> length c \<le> 32768"
  by (induction its arbitrary: pipe) (simp_all add: chunks_Nil chunks_Cons)

lemma chunks_concat:
  "\<exists>r\<in>set (reads its pipe). finished r \<Longrightarrow>
     \<exists>k<length its. concat (chunks its pipe) = pipe @ concat (map arrived (take (Suc k) its))"
proof (induction its arbitrary: pipe)
  case Nil
  then show ?case by simp
next
  case (Cons it its)
  show ?case
  proof (cases "finished (take 32768 (pipe @ arrived it), status it)")
    case True
    then have "concat (chunks (it # its) pipe) = pipe @ concat (map arrived (take (Suc 0) (it # its)))"
      by (simp add: chunks_Cons finished_def)
    then show ?thesis by blast
  next
    case False
    then have "\<exists>r\<in>set (reads its (drop 32768 (pipe @ arrived it))). finished r"
      using Cons.prems by simp
    then obtain k where k: "k < length its"
        "concat (chunks its (drop 32768 (pipe @ arrived it)))
           = drop 32768 (pipe @ arrived it) @ concat (map arrived (take (Suc k) its))"
      using Cons.IH by blast
    have "concat (chunks (it # its) pipe)
            = take 32768 (pipe @ arrived it) @ concat (chunks its (drop 32768 (pipe @ arrived it)))"
      using False by (auto simp add: chunks_Cons finished_def)
    also have "\<dots> = (take 32768 (pipe @ arrived it) @ drop 32768 (pipe @ arrived it))
                     @ concat (map arrived (take (Suc k) its))"
      using k(2) by simp
    also have "\<dots> = pipe @ concat (map arrived (take (Suc (Suc k)) (it # its)))"
      by (simp only: append_take_drop_id) simp
    finally have "concat (chunks (it # its) pipe)
            = pipe @ concat (map arrived (take (Suc (Suc k)) (it # its)))" .
    then show ?thesis using k(1) by auto
  qed
qed

lemma fold_accept_new:
  "(fd, ws) \<in> set cs \<Longrightarrow> distinct (map fst cs) \<Longrightarrow> \<not> terminated ws \<Longrightarrow>
     fold accept cs wss fd =
       Some (ws\<lparr>sent := sent ws @ [([0x6A, 0x73, 0x6D, 0x70, 0x02, 0x80, 0x01, 0xE0], True)]\<rparr>)"
proof (induction cs arbitrary: wss)
  case Nil
  then show ?case by simp
next
  case (Cons c cs)
  show ?case
  proof (cases "c = (fd, ws)")
    case True
    then have "fd \<notin> fst ` set cs" using Cons.prems by auto
    moreover have "accept c wss fd =
        Some (ws\<lparr>sent := sent ws @ [([0x6A, 0x73, 0x6D, 0x70, 0x02, 0x80, 0x01, 0xE0], True)]\<rparr>)"
      using True Cons.prems by (simp add: accept_def opened_eq)
    ultimately show ?thesis
      by (simp add: fold_accept_other)
  next
    case False
    then show ?thesis using Cons by auto
  qed
qed

lemma run_Some:
  "run its s = Some (s', r) \<Longrightarrow>
     \<exists>t. run_loop its s = Some (t, r) \<and> websockets s' = websockets t \<and>
         converter s' = close_stdout (converter t)"
  by (auto simp: run_def split: option.splits)

text \<open>
  C1. On a relay whose read handle is open: the loop ends exactly when some read is empty
  while the process has exited; every chunk is a non-empty read of at most 32768 bytes;
  and when the loop has ended, no exception was raised, the read handle is closed, the
  chunks put end to end are the bytes of the pipe and of the transcoder up to the last
  read, unchanged and in order, and every viewer that was connected and live at the
  start and that no iteration touched has received exactly the chunks, in order, after
  what it had received before.
\<close>

theorem relay_order_preserved:
  assumes "\<not> stdout_closed (converter s)"
  shows "((run its s \<noteq> None) = (\<exists>r\<in>set (reads its (stdout_pipe (converter s))). finished r))
    \<and> (\<forall>c\<in>set (chunks its (stdout_pipe (converter s))). c \<noteq> [] \<and> length c \<le> 32768)
    \<and> (\<forall>s' r. run its s = Some (s', r) \<longrightarrow>
          r = None \<and> stdout_closed (converter s')
          \<and> (\<exists>k<length its. concat (chunks its (stdout_pipe (converter s)))
                 = stdout_pipe (converter s) @ concat (map arrived (take (Suc k) its)))
          \<and> (\<forall>fd ws. websockets s fd = Some ws \<and> \<not> terminated ws \<and> (\<forall>i\<in>set its. untouched fd i)
                \<longrightarrow> (\<exists>ws'. websockets s' fd = Some ws' \<and>
                       sent ws' = sent ws @ map (\<lambda>c. (c, True)) (chunks its (stdout_pipe (converter s))))))"
proof (intro conjI allI impI)
  show ends: "(run its s \<noteq> None) = (\<exists>r\<in>set (reads its (stdout_pipe (converter s))). finished r)"
    using run_loop_ends_iff [OF assms, of its] by (auto simp: run_def split: option.splits)
  show "\<forall>c\<in>set (chunks its (stdout_pipe (converter s))). c \<noteq> [] \<and> length c \<le> 32768"
    by (rule chunks_bounded)
  fix s' r
  assume run: "run its s = Some (s', r)"
  then obtain t where t: "run_loop its s = Some (t, r)" "websockets s' = websockets t"
      "converter s' = close_stdout (converter t)"
    using run_Some by blast
  show "r = None" using run_loop_result [OF assms t(1)] by simp
  show "stdout_closed (converter s')" using t(3) by (simp add: close_stdout_def)
  show "\<exists>k<length its. concat (chunks its (stdout_pipe (converter s)))
          = stdout_pipe (converter s) @ concat (map arrived (take (Suc k) its))"
    using ends run by (intro chunks_concat) simp
  fix fd ws
  assume "websockets s fd = Some ws \<and> \<not> terminated ws \<and> (\<forall>i\<in>set its. untouched fd i)"
  then show "\<exists>ws'. websockets s' fd = Some ws' \<and>
      sent ws' = sent ws @ map (\<lambda>c. (c, True)) (chunks its (stdout_pipe (converter s)))"
    using run_loop_viewer [OF assms t(1), of fd ws] t(2) by auto
qed

theorem relay_order_preserved_witness:
  "\<not> stdout_closed (converter s0) \<and> (\<exists>s'. run its0 s0 = Some (s', None) \<and> stdout_closed (converter s') \<and>
      (\<exists>ws'. websockets s' 1 = Some ws' \<and> sent ws' = [([7, 8], True)]))"
proof -
  have closed: "\<not> stdout_closed (converter s0)" by (simp add: s0_def)
  have rd: "reads its0 [] = [([7, 8], None), ([], Some 0)]" "stdout_pipe (converter s0) = []"
    by (simp_all add: its0_def s0_def)
  have ch: "chunks its0 [] = [[7, 8]]" by (simp add: chunks_def rd finished_def)
  note inst = relay_order_preserved [OF closed, of its0, unfolded rd ch]
  from inst have "run its0 s0 \<noteq> None" by (simp add: finished_def)
  then obtain s' r where run: "run its0 s0 = Some (s', r)" by auto
  from inst run have A: "r = None" and B: "stdout_closed (converter s')"
    and C: "\<forall>fd ws. websockets s0 fd = Some ws \<and> \<not> terminated ws \<and> (\<forall>i\<in>set its0. untouched fd i)
              \<longrightarrow> (\<exists>ws'. websockets s' fd = Some ws' \<and>
                     sent ws' = sent ws @ map (\<lambda>c. (c, True)) [[7, 8]])"
    by blast+
  have "websockets s0 1 = Some ws0 \<and> \<not> terminated ws0 \<and> (\<forall>i\<in>set its0. untouched 1 i)"
    by (simp add: s0_def ws0_def its0_def untouched_def)
  with C obtain ws' where "websockets s' 1 = Some ws'"
      "sent ws' = sent ws0 @ map (\<lambda>c. (c, True)) [[7, 8]]"
    by blast
  then show ?thesis using closed run A B by (simp add: ws0_def)
qed

lemma handshake_fields:
  "length [0x6A, 0x73, 0x6D, 0x70, 0x02, 0x80, 0x01, 0xE0 :: byte] = 8"
  "take 4 [0x6A, 0x73, 0x6D, 0x70, 0x02, 0x80, 0x01, 0xE0 :: byte] = JSMPEG_MAGIC"
  "unpack_H (drop 4 [0x6A, 0x73, 0x6D, 0x70, 0x02, 0x80, 0x01, 0xE0]) = WIDTH"
  "unpack_H (drop 6 [0x6A, 0x73, 0x6D, 0x70, 0x02, 0x80, 0x01, 0xE0]) = HEIGHT"
  by (simp_all add: JSMPEG_MAGIC_def unpack_H_def WIDTH_def HEIGHT_def)

lemma environment_accepts:
  "(fd, ws) \<in> set (connects it) \<Longrightarrow> distinct (map fst (connects it)) \<Longrightarrow>
   fd \<notin> set (hangups it) \<Longrightarrow> \<not> terminated ws \<Longrightarrow>
     websockets (environment it s) fd =
       Some (ws\<lparr>sent := sent ws @ [([0x6A, 0x73, 0x6D, 0x70, 0x02, 0x80, 0x01, 0xE0], True)]\<rparr>)"
  by (simp add: environment_def fold_hangup_other fold_accept_new)

lemma run_loop_newcomer:
  assumes "\<not> stdout_closed (converter s)" and "run_loop (it # its) s = Some (s', r)"
    and "websockets (environment it s) fd = Some ws" and "\<not> terminated ws"
    and "\<forall>i\<in>set its. untouched fd i"
  shows "\<exists>ws'. websockets s' fd = Some ws' \<and>
           sent ws' = sent ws @ map (\<lambda>c. (c, True)) (chunks (it # its) (stdout_pipe (converter s)))"
proof -
  let ?buf = "take 32768 (stdout_pipe (converter s) @ arrived it)"
  show ?thesis
  proof (cases "?buf \<noteq> []")
    case True
    let ?s1 = "(after_read it s)\<lparr>websockets := broadcast ?buf True (websockets (environment it s))\<rparr>"
    have "run_loop its ?s1 = Some (s', r)"
      using assms True by (simp add: run_loop_step)
    moreover have "websockets ?s1 fd = Some (ws\<lparr>sent := sent ws @ [(?buf, True)]\<rparr>)"
      using assms by (simp add: broadcast_live)
    ultimately show ?thesis
      using run_loop_viewer [of ?s1 its s' r fd "ws\<lparr>sent := sent ws @ [(?buf, True)]\<rparr>"] assms True
      by (auto simp add: chunks_Cons)
  next
    case False
    show ?thesis
    proof (cases "status it")
      case None
      then have "run_loop its (after_read it s) = Some (s', r)"
        using assms False by (simp add: run_loop_step)
      then show ?thesis
        using run_loop_viewer [of "after_read it s" its s' r fd ws] assms False None
        by (auto simp add: chunks_Cons)
    next
      case (Some rc)
      then have "s' = after_read it s"
        using assms False by (simp add: run_loop_step)
      then show ?thesis
        using assms False Some by (simp add: chunks_Cons)
    qed
  qed
qed

text \<open>
  C2. Opening a live connection sends exactly one message, binary, of eight bytes: the
  four bytes of the magic, then the configured width and height as big-endian 16-bit
  numbers. For a connection accepted in some iteration of the relay and left alone
  afterwards, that record comes first in what the viewer is sent, and the chunks read
  from that iteration on follow it.
\<close>

theorem handshake_precedes_chunks:
  assumes "\<not> terminated ws"
  shows "\<exists>hdr. length hdr = 8 \<and> take 4 hdr = JSMPEG_MAGIC
      \<and> unpack_H (drop 4 hdr) = WIDTH \<and> unpack_H (drop 6 hdr) = HEIGHT
      \<and> opened ws = Inr (ws\<lparr>sent := sent ws @ [(hdr, True)]\<rparr>)
      \<and> (\<forall>s it its s' r fd.
            \<not> stdout_closed (converter s) \<and> (fd, ws) \<in> set (connects it)
            \<and> distinct (map fst (connects it)) \<and> fd \<notin> set (hangups it)
            \<and> (\<forall>i\<in>set its. untouched fd i) \<and> run (it # its) s = Some (s', r)
            \<longrightarrow> (\<exists>ws'. websockets s' fd = Some ws' \<and>
                  sent ws' = sent ws @ (hdr, True)
                    # map (\<lambda>c. (c, True)) (chunks (it # its) (stdout_pipe (converter s)))))"
proof (intro exI [of _ "[0x6A, 0x73, 0x6D, 0x70, 0x02, 0x80, 0x01, 0xE0]"] conjI allI impI)
  show "opened ws = Inr (ws\<lparr>sent := sent ws @ [([0x6A, 0x73, 0x6D, 0x70, 0x02, 0x80, 0x01, 0xE0], True)]\<rparr>)"
    using assms by (simp add: opened_eq)
next
  fix s it its s' r fd
  assume h: "\<not> stdout_closed (converter s) \<and> (fd, ws) \<in> set (connects it)
            \<and> distinct (map fst (connects it)) \<and> fd \<notin> set (hangups it)
            \<and> (\<forall>i\<in>set its. untouched fd i) \<and> run (it # its) s = Some (s', r)"
  then obtain t where t: "run_loop (it # its) s = Some (t, r)" "websockets s' = websockets t"
    using run_Some by blast
  have "websockets (environment it s) fd =
       Some (ws\<lparr>sent := sent ws @ [([0x6A, 0x73, 0x6D, 0x70, 0x02, 0x80, 0x01, 0xE0], True)]\<rparr>)"
    using h assms by (simp add: environment_accepts)
  from run_loop_newcomer [OF _ t(1) this] h assms t(2)
  show "\<exists>ws'. websockets s' fd = Some ws' \<and>
          sent ws' = sent ws @ ([0x6A, 0x73, 0x6D, 0x70, 0x02, 0x80, 0x01, 0xE0], True)
            # map (\<lambda>c. (c, True)) (chunks (it # its) (stdout_pipe (converter s)))"
    by simp
qed (simp_all add: JSMPEG_MAGIC_def unpack_H_def WIDTH_def HEIGHT_def)

lemma run_ends_iff:
  "\<not> stdout_closed (converter s) \<Longrightarrow>
   (run its s \<noteq> None) = (\<exists>r\<in>set (reads its (stdout_pipe (converter s))). finished r)"
  using run_loop_ends_iff [of s its] by (auto simp: run_def split: option.splits)

lemma run_no_exception:
  "\<not> stdout_closed (converter s) \<Longrightarrow> run its s = Some (s', r) \<Longrightarrow> r = None"
  using run_loop_result [of s its] by (auto simp: run_def split: option.splits)

theorem handshake_precedes_chunks_witness:
  "\<not> terminated ws0 \<and>
   (\<exists>s'. run its1 s0 = Some (s', None) \<and>
      (\<exists>ws'. websockets s' 2 = Some ws' \<and>
         sent ws' = [([0x6A, 0x73, 0x6D, 0x70, 0x02, 0x80, 0x01, 0xE0], True), ([7, 8], True)]))"
proof -
  have live: "\<not> terminated ws0" by (simp add: ws0_def)
  have closed: "\<not> stdout_closed (converter s0)" and pipe: "stdout_pipe (converter s0) = []"
    by (simp_all add: s0_def)
  have rd: "reads its1 [] = [([7, 8], None), ([], Some 0)]"
    by (simp add: its1_def)
  have ch: "chunks its1 [] = [[7, 8]]" by (simp add: chunks_def rd finished_def)
  have "run its1 s0 \<noteq> None"
    using run_ends_iff [OF closed, of its1] by (simp add: pipe rd finished_def)
  then obtain s' r where run: "run its1 s0 = Some (s', r)" by auto
  then have r: "r = None" using run_no_exception [OF closed] by blast
  from handshake_precedes_chunks [OF live] obtain hdr where
    op: "opened ws0 = Inr (ws0\<lparr>sent := sent ws0 @ [(hdr, True)]\<rparr>)" and
    all: "\<forall>s it its s' r fd.
            \<not> stdout_closed (converter s) \<and> (fd, ws0) \<in> set (connects it)
            \<and> distinct (map fst (connects it)) \<and> fd \<notin> set (hangups it)
            \<and> (\<forall>i\<in>set its. untouched fd i) \<and> run (it # its) s = Some (s', r)
            \<longrightarrow> (\<exists>ws'. websockets s' fd = Some ws' \<and>
                  sent ws' = sent ws0 @ (hdr, True)
                    # map (\<lambda>c. (c, True)) (chunks (it # its) (stdout_pipe (converter s))))"
    by blast
  have hdr: "hdr = [0x6A, 0x73, 0x6D, 0x70, 0x02, 0x80, 0x01, 0xE0]"
    using op live by (simp add: opened_eq ws0_def)
  have "\<exists>ws'. websockets s' 2 = Some ws' \<and>
          sent ws' = sent ws0 @ (hdr, True) # map (\<lambda>c. (c, True)) (chunks its1 (stdout_pipe (converter s0)))"
    using all [rule_format, of s0 2 "hd its1" "tl its1" s' r] closed run
    by (simp add: its1_def untouched_def)
  then show ?thesis using live run r by (simp add: hdr pipe ch ws0_def)
qed

lemma accept_pointwise: "wss fd = wss' fd \<Longrightarrow> accept c wss fd = accept c wss' fd"
  by (simp add: accept_def split: sum.splits)

lemma hangup_pointwise: "wss fd = wss' fd \<Longrightarrow> hangup h wss fd = hangup h wss' fd"
  by (cases "fd = h") (auto simp add: hangup_def split: option.splits)

lemma fold_accept_pointwise:
  "wss fd = wss' fd \<Longrightarrow> fold accept cs wss fd = fold accept cs wss' fd"
proof (induction cs arbitrary: wss wss')
  case Nil
  then show ?case by simp
next
  case (Cons c cs)
  show ?case
    using Cons.IH [of "accept c wss" "accept c wss'"]
      accept_pointwise [where wss = wss and wss' = wss' and fd = fd and c = c] Cons.prems
    by simp
qed

lemma fold_hangup_pointwise:
  "wss fd = wss' fd \<Longrightarrow> fold hangup hs wss fd = fold hangup hs wss' fd"
proof (induction hs arbitrary: wss wss')
  case Nil
  then show ?case by simp
next
  case (Cons h hs)
  show ?case
    using Cons.IH [of "hangup h wss" "hangup h wss'"]
      hangup_pointwise [where wss = wss and wss' = wss' and fd = fd and h = h] Cons.prems
    by simp
qed

lemma environment_pointwise:
  "websockets s fd = websockets t fd \<Longrightarrow>
     websockets (environment it s) fd = websockets (environment it t) fd"
  using fold_accept_pointwise [where wss = "websockets s" and wss' = "websockets t" and fd = fd
      and cs = "connects it"]
    fold_hangup_pointwise [where wss = "fold accept (connects it) (websockets s)"
      and wss' = "fold accept (connects it) (websockets t)" and fd = fd and hs = "hangups it"]
  by (simp add: environment_def)

lemma broadcast_pointwise:
  "wss fd = wss' fd \<Longrightarrow> broadcast m b wss fd = broadcast m b wss' fd"
  by (simp add: broadcast_def)

lemma agree_after_read:
  assumes "agree_except fdb s t"
  shows "agree_except fdb (after_read it s) (after_read it t)"
proof -
  have "converter (after_read it s) = converter (after_read it t)"
    using assms by (simp add: agree_except_def after_read_def environment_def)
  moreover have "websockets (after_read it s) fd = websockets (after_read it t) fd"
    if "fd \<noteq> fdb" for fd
    using assms that environment_pointwise [of s fd t it] by (simp add: agree_except_def)
  ultimately show ?thesis by (simp add: agree_except_def)
qed

lemma agree_broadcast:
  assumes "agree_except fdb s t"
  shows "agree_except fdb
      ((after_read it s)\<lparr>websockets := broadcast m b (websockets (environment it s))\<rparr>)
      ((after_read it t)\<lparr>websockets := broadcast m b (websockets (environment it t))\<rparr>)"
proof -
  have "converter (after_read it s) = converter (after_read it t)"
    using agree_after_read [OF assms, of it] by (simp add: agree_except_def)
  moreover have "broadcast m b (websockets (environment it s)) fd
        = broadcast m b (websockets (environment it t)) fd" if "fd \<noteq> fdb" for fd
    using assms that environment_pointwise [of s fd t it]
      broadcast_pointwise [where wss = "websockets (environment it s)"
        and wss' = "websockets (environment it t)" and fd = fd and m = m and b = b]
    by (simp add: agree_except_def)
  ultimately show ?thesis by (simp add: agree_except_def)
qed

lemma run_loop_agree:
  "agree_except fdb s t \<Longrightarrow> \<not> stdout_closed (converter s) \<Longrightarrow>
     (run_loop its s = None \<longrightarrow> run_loop its t = None) \<and>
     (\<forall>s' r. run_loop its s = Some (s', r) \<longrightarrow>
        (\<exists>t'. run_loop its t = Some (t', r) \<and> agree_except fdb s' t'))"
proof (induction its arbitrary: s t)
  case Nil
  then show ?case by simp
next
  case (Cons it its)
  have conv: "converter s = converter t" and closed_t: "\<not> stdout_closed (converter t)"
    using Cons.prems by (simp_all add: agree_except_def)
  let ?buf = "take 32768 (stdout_pipe (converter s) @ arrived it)"
  show ?case
  proof (cases "?buf \<noteq> []")
    case True
    show ?thesis
      using Cons.IH [OF agree_broadcast [OF Cons.prems(1), where it = it and m = ?buf and b = True]] Cons.prems(2) True
      by (simp add: run_loop_step closed_t conv [symmetric])
  next
    case False
    show ?thesis
      using Cons.IH [OF agree_after_read [OF Cons.prems(1), where it = it]] Cons.prems(2) False
        agree_after_read [OF Cons.prems(1), where it = it]
      by (simp add: run_loop_step closed_t conv [symmetric])
  qed
qed

lemma agree_except_update: "agree_except fdb (s\<lparr>websockets := (websockets s)(fdb \<mapsto> wb)\<rparr>) s"
  by (simp add: agree_except_def)

lemma run_agree:
  assumes "agree_except fdb s t" and "\<not> stdout_closed (converter s)"
    and "run its s = Some (s', r)"
  shows "\<exists>t'. run its t = Some (t', r) \<and> agree_except fdb s' t'"
proof -
  obtain u where u: "run_loop its s = Some (u, r)"
      "s' = u\<lparr>converter := close_stdout (converter u)\<rparr>"
    using assms(3) by (auto simp: run_def split: option.splits)
  then obtain v where v: "run_loop its t = Some (v, r)" "agree_except fdb u v"
    using run_loop_agree [OF assms(1,2), of its] by blast
  then have "run its t = Some (v\<lparr>converter := close_stdout (converter v)\<rparr>, r)"
    by (simp add: run_def)
  moreover have "agree_except fdb s' (v\<lparr>converter := close_stdout (converter v)\<rparr>)"
    using v(2) u(2) by (simp add: agree_except_def)
  ultimately show ?thesis by blast
qed

text \<open>
  C6. With a viewer whose socket has closed in the registry, the relay ends exactly when
  it would without that viewer and raises nothing; the transcoder's state and every
  other viewer end as they would without it; every other live viewer that no iteration
  touches receives every chunk, in order; and a broadcast leaves the closed viewer out
  of the registry.
\<close>

theorem broken_viewer_isolated:
  assumes "\<not> stdout_closed (converter s)" and "terminated wb"
  shows "((run its (s\<lparr>websockets := (websockets s)(fdb \<mapsto> wb)\<rparr>) = None) = (run its s = None))
    \<and> (\<forall>t' r. run its (s\<lparr>websockets := (websockets s)(fdb \<mapsto> wb)\<rparr>) = Some (t', r) \<longrightarrow>
          r = None
          \<and> (\<exists>s'. run its s = Some (s', None) \<and> converter t' = converter s'
                \<and> (\<forall>fd. fd \<noteq> fdb \<longrightarrow> websockets t' fd = websockets s' fd))
          \<and> (\<forall>fd ws. fd \<noteq> fdb \<and> websockets s fd = Some ws \<and> \<not> terminated ws
                  \<and> (\<forall>i\<in>set its. untouched fd i)
                \<longrightarrow> (\<exists>ws'. websockets t' fd = Some ws' \<and>
                       sent ws' = sent ws @ map (\<lambda>c. (c, True)) (chunks its (stdout_pipe (converter s))))))
    \<and> (\<forall>m. broadcast m True ((websockets s)(fdb \<mapsto> wb)) fdb = None)"
proof (intro conjI allI impI)
  let ?s2 = "s\<lparr>websockets := (websockets s)(fdb \<mapsto> wb)\<rparr>"
  have closed2: "\<not> stdout_closed (converter ?s2)" using assms by simp
  show "(run its ?s2 = None) = (run its s = None)"
    using run_ends_iff [OF closed2, of its] run_ends_iff [OF assms(1), of its] by auto
  show "broadcast m True ((websockets s)(fdb \<mapsto> wb)) fdb = None" for m
    using assms(2) by (simp add: broadcast_terminated)
  fix t' r
  assume run2: "run its ?s2 = Some (t', r)"
  show r: "r = None" using run_no_exception [OF closed2 run2] .
  obtain s' where s': "run its s = Some (s', r)" "agree_except fdb t' s'"
    using run_agree [OF agree_except_update closed2 run2] by blast
  then show "\<exists>s'. run its s = Some (s', None) \<and> converter t' = converter s'
                \<and> (\<forall>fd. fd \<noteq> fdb \<longrightarrow> websockets t' fd = websockets s' fd)"
    using r by (auto simp: agree_except_def)
  fix fd ws
  assume h: "fd \<noteq> fdb \<and> websockets s fd = Some ws \<and> \<not> terminated ws
                  \<and> (\<forall>i\<in>set its. untouched fd i)"
  obtain u where u: "run_loop its s = Some (u, r)" "websockets s' = websockets u"
    using run_Some [OF s'(1)] by blast
  obtain ws' where "websockets u fd = Some ws'"
      "sent ws' = sent ws @ map (\<lambda>c. (c, True)) (chunks its (stdout_pipe (converter s)))"
    using run_loop_viewer [OF assms(1) u(1), of fd ws] h by blast
  then show "\<exists>ws'. websockets t' fd = Some ws' \<and>
      sent ws' = sent ws @ map (\<lambda>c. (c, True)) (chunks its (stdout_pipe (converter s)))"
    using s'(2) u(2) h by (simp add: agree_except_def)
qed

theorem broken_viewer_isolated_witness:
  "\<not> stdout_closed (converter s0) \<and> terminated wb0 \<and>
   (\<exists>t'. run its0 (s0\<lparr>websockets := (websockets s0)(2 \<mapsto> wb0)\<rparr>) = Some (t', None) \<and>
      (\<exists>ws'. websockets t' 1 = Some ws' \<and> sent ws' = [([7, 8], True)]))"
proof -
  have closed: "\<not> stdout_closed (converter s0)" and pipe: "stdout_pipe (converter s0) = []"
    by (simp_all add: s0_def)
  have broken: "terminated wb0" by (simp add: wb0_def)
  have rd: "reads its0 [] = [([7, 8], None), ([], Some 0)]"
    by (simp add: its0_def)
  have ch: "chunks its0 [] = [[7, 8]]" by (simp add: chunks_def rd finished_def)
  note inst = broken_viewer_isolated [OF closed broken, of its0 2, unfolded pipe ch]
  have "run its0 s0 \<noteq> None"
    using run_ends_iff [OF closed, of its0] by (simp add: pipe rd finished_def)
  with inst have "run its0 (s0\<lparr>websockets := (websockets s0)(2 \<mapsto> wb0)\<rparr>) \<noteq> None" by simp
  then obtain t' r where run: "run its0 (s0\<lparr>websockets := (websockets s0)(2 \<mapsto> wb0)\<rparr>) = Some (t', r)"
    by auto
  from inst run have A: "r = None"
    and C: "\<forall>fd ws. fd \<noteq> 2 \<and> websockets s0 fd = Some ws \<and> \<not> terminated ws
                  \<and> (\<forall>i\<in>set its0. untouched fd i)
              \<longrightarrow> (\<exists>ws'. websockets t' fd = Some ws' \<and>
                     sent ws' = sent ws @ map (\<lambda>c. (c, True)) [[7, 8]])"
    by blast+
  have "(1::nat) \<noteq> 2 \<and> websockets s0 1 = Some ws0 \<and> \<not> terminated ws0 \<and> (\<forall>i\<in>set its0. untouched 1 i)"
    by (simp add: s0_def ws0_def its0_def untouched_def)
  with C obtain ws' where "websockets t' 1 = Some ws'"
      "sent ws' = sent ws0 @ map (\<lambda>c. (c, True)) [[7, 8]]"
    by blast
  then show ?thesis using closed broken run A by (simp add: ws0_def)
qed

subsection \<open>The frame sink\<close>

text \<open>
  C3, as stated, fails: with a child that never exits \<open>flush\<close> never returns and
  raises nothing, and with a child that exits after a million ticks it blocks for a
  million ticks and raises nothing.
\<close>

theorem flush_bounded_wait_counterexample:
  "flush \<lparr>exits_after = None, exit_status = 0\<rparr> p0 = None \<and>
   flush \<lparr>exits_after = Some 1000000, exit_status = 0\<rparr> p0
     = Some (1000000, p0\<lparr>stdin_closed := True, returncode := Some 0\<rparr>, None)"
  by (simp add: flush_def Popen_wait_def p0_def)

text \<open>
  C3, amended. On a running child, \<open>flush\<close> closes the input and then blocks until the
  child terminates, however long that takes: it returns after exactly the child's time
  with the input closed and the exit status stored, it never raises, and it never
  returns when the child never exits. Waiting without closing the input first would
  never return.
\<close>

theorem flush_closes_then_waits:
  assumes "returncode p = None"
  shows "flush child p =
      (case exits_after child of
         None \<Rightarrow> None
       | Some n \<Rightarrow> Some (n, p\<lparr>stdin_closed := True, returncode := Some (exit_status child)\<rparr>, None))
    \<and> (\<forall>n q e. flush child p = Some (n, q, e) \<longrightarrow>
          e = None \<and> stdin_closed q \<and> exits_after child = Some n)
    \<and> (\<not> stdin_closed p \<longrightarrow> Popen_wait None child p = None)"
proof (cases "exits_after child")
  case None
  then show ?thesis using assms by (simp add: flush_def Popen_wait_def)
next
  case (Some n)
  then show ?thesis using assms by (simp add: flush_def Popen_wait_def)
qed

theorem flush_closes_then_waits_witness:
  "returncode p0 = None \<and> \<not> stdin_closed p0 \<and>
   flush \<lparr>exits_after = Some 3, exit_status = 0\<rparr> p0
     = Some (3, p0\<lparr>stdin_closed := True, returncode := Some 0\<rparr>, None) \<and>
   Popen_wait None \<lparr>exits_after = Some 3, exit_status = 0\<rparr> p0 = None"
proof -
  have rc: "returncode p0 = None" and op: "\<not> stdin_closed p0" by (simp_all add: p0_def)
  note inst = flush_closes_then_waits [OF rc, of "\<lparr>exits_after = Some 3, exit_status = 0\<rparr>"]
  from inst [THEN conjunct1] have "flush \<lparr>exits_after = Some 3, exit_status = 0\<rparr> p0
     = Some (3, p0\<lparr>stdin_closed := True, returncode := Some 0\<rparr>, None)"
    by simp
  moreover from inst [THEN conjunct2, THEN conjunct2] op have "Popen_wait None \<lparr>exits_after = Some 3, exit_status = 0\<rparr> p0 = None"
    by blast
  ultimately show ?thesis using rc op by blast
qed

subsection \<open>The shutdown path and the run-state flags\<close>

lemma statements_perform:
  "statements (map (perform fault) as) s =
     (s\<lparr>lifecycle := lifecycle s @
          (case find (\<lambda>a. fault a \<noteq> None) as of
             None \<Rightarrow> as
           | Some a \<Rightarrow> takeWhile (\<lambda>a. fault a = None) as @ [a])\<rparr>,
      case find (\<lambda>a. fault a \<noteq> None) as of None \<Rightarrow> None | Some a \<Rightarrow> fault a)"
proof (induction as arbitrary: s)
  case Nil
  then show ?case by simp
next
  case (Cons a as)
  have head: "perform fault a s = (s\<lparr>lifecycle := lifecycle s @ [a]\<rparr>, fault a)"
    by (simp add: perform_def)
  show ?case
  proof (cases "fault a")
    case None
    then show ?thesis by (simp add: head Cons.IH split: option.splits)
  next
    case (Some e)
    then show ?thesis by (simp add: head)
  qed
qed

lemma cleanup_eq:
  "cleanup fault s = statements (map (perform fault) cleanup_steps) (s\<lparr>whileMove := True\<rparr>)"
  by (simp add: cleanup_def cleanup_steps_def)

lemma cleanup_whileMove: "whileMove (fst (cleanup fault s))"
  by (simp add: cleanup_eq statements_perform)

lemma finally_cleanup_whileMove: "whileMove (fst (finally_do r (cleanup fault)))"
proof -
  obtain s p where r: "r = (s, p)" by (cases r)
  obtain s' q where c: "cleanup fault s = (s', q)" by (cases "cleanup fault s")
  have "whileMove s'" using cleanup_whileMove [of fault s] c by simp
  then show ?thesis using r c by (cases q) (simp_all add: finally_do_def)
qed

lemma continuous_whileMove:
  assumes "continuous iter None fault cs s = Some (s', r)"
  shows "whileMove s'"
proof -
  obtain r0 where "finally_do (except_KeyboardInterrupt r0) (cleanup fault) = (s', r)"
    using assms by (simp add: continuous_def split: option.splits)
  then show ?thesis
    using finally_cleanup_whileMove [of "except_KeyboardInterrupt r0" fault] by simp
qed

lemma fold_call_lifecycle: "lifecycle (fold call cs s) = lifecycle s"
proof (induction cs arbitrary: s)
  case Nil
  then show ?case by simp
next
  case (Cons c cs)
  then show ?case by (cases c) (simp_all add: setWater_def setLook_def setWhileMove_def)
qed

lemma sendSlack_lifecycle: "lifecycle (fst (sendSlack f c s)) = lifecycle s"
  by (simp add: sendSlack_def split: option.splits)

lemma notify_look_lifecycle: "lifecycle (fst (notify_look f s)) = lifecycle s"
  by (simp add: notify_look_def sendSlack_def split: option.splits)

lemma notify_water_lifecycle: "lifecycle (fst (notify_water f m s)) = lifecycle s"
  by (simp add: notify_water_def sendSlack_def split: option.splits)

lemma consume_intents_lifecycle: "lifecycle (fst (consume_intents f m s)) = lifecycle s"
  by (simp add: consume_intents_def notify_look_lifecycle notify_water_lifecycle)

lemma statements_keep:
  "\<forall>f\<in>set fs. \<forall>s. P (fst (f s)) = P s \<Longrightarrow> P (fst (statements fs s)) = P s"
proof (induction fs arbitrary: s)
  case Nil
  then show ?case by simp
next
  case (Cons f fs)
  obtain s1 r1 where f: "f s = (s1, r1)" by (cases "f s")
  have "P s1 = P s" using Cons.prems f by (metis fst_conv list.set_intros(1))
  moreover have "P (fst (statements fs s1)) = P s1" using Cons by simp
  ultimately show ?case using f by (cases r1) simp_all
qed

lemma main_cycle_lifecycle: "lifecycle (fst (snd (main_cycle c l s))) = lifecycle s"
  unfolding main_cycle_def Let_def snd_conv
  by (rule statements_keep [where P = "\<lambda>s. lifecycle s"])
    (simp add: fold_call_lifecycle library_call_def notify_look_lifecycle sendSlack_lifecycle)

lemma autoLook_cycle_lifecycle: "lifecycle (fst (snd (autoLook_cycle c l s))) = lifecycle s"
  unfolding autoLook_cycle_def Let_def snd_conv
  by (rule statements_keep [where P = "\<lambda>s. lifecycle s"])
    (simp add: fold_call_lifecycle library_call_def consume_intents_lifecycle)

lemma capture_loop_lifecycle:
  assumes "\<And>c l s. lifecycle (fst (snd (iter c l s))) = lifecycle s"
  shows "capture_loop iter cs l s = Some (s', r) \<Longrightarrow> lifecycle s' = lifecycle s"
proof (induction cs arbitrary: l s)
  case Nil
  then show ?case by (simp split: if_splits)
next
  case (Cons c cs)
  let ?s1 = "fold call (calls_before c) s"
  show ?case
  proof (cases "whileMove ?s1")
    case False
    then have "s' = ?s1" using Cons.prems by simp
    then show ?thesis by (simp add: fold_call_lifecycle)
  next
    case True
    obtain l' s2 e where it: "iter c l ?s1 = (l', s2, e)" by (cases "iter c l ?s1") auto
    have s2: "lifecycle s2 = lifecycle s"
      using assms [of c l ?s1] it by (simp add: fold_call_lifecycle)
    show ?thesis
    proof (cases e)
      case None
      then show ?thesis using Cons.prems True it Cons.IH [of l' s2] s2 by simp
    next
      case (Some x)
      then show ?thesis using Cons.prems True it s2 by simp
    qed
  qed
qed

lemma start_threads:
  "fault (Start WebsocketThread) = None \<Longrightarrow> fault (Start HttpThread) = None \<Longrightarrow>
   fault (Start BroadcastThread) = None \<Longrightarrow>
     statements [perform fault (Start WebsocketThread), perform fault (Start HttpThread),
                 perform fault (Start BroadcastThread)] s
       = (s\<lparr>lifecycle := lifecycle s @
             [Start WebsocketThread, Start HttpThread, Start BroadcastThread]\<rparr>, None)"
  by (simp add: perform_def)

lemma except_KeyboardInterrupt_fst: "fst (except_KeyboardInterrupt r) = fst r"
  by (cases r) (auto simp: except_KeyboardInterrupt_def split: option.splits exn.splits)

lemma finally_cleanup_lifecycle:
  "\<forall>a. fault a = None \<Longrightarrow>
     lifecycle (fst (finally_do r (cleanup fault))) = lifecycle (fst r) @ cleanup_steps"
proof -
  assume nf: "\<forall>a. fault a = None"
  obtain s p where r: "r = (s, p)" by (cases r)
  have "find (\<lambda>a. fault a \<noteq> None) cleanup_steps = None"
    using nf by (simp add: find_None_iff)
  then have "cleanup fault s = (s\<lparr>whileMove := True, lifecycle := lifecycle s @ cleanup_steps\<rparr>, None)"
    by (simp add: cleanup_eq statements_perform)
  then show ?thesis using r by (simp add: finally_do_def)
qed

lemma continuous_lifecycle:
  assumes "\<And>c l s. lifecycle (fst (snd (iter c l s))) = lifecycle s"
    and "\<forall>a. fault a = None"
    and "continuous iter None fault cs s = Some (s', r)"
  shows "lifecycle s' = lifecycle s @
      [Start WebsocketThread, Start HttpThread, Start BroadcastThread] @ cleanup_steps"
proof -
  let ?s1 = "s\<lparr>lifecycle := lifecycle s @
             [Start WebsocketThread, Start HttpThread, Start BroadcastThread]\<rparr>"
  obtain r0 where r0: "capture_loop iter cs initial_locals ?s1 = Some r0"
      "finally_do (except_KeyboardInterrupt r0) (cleanup fault) = (s', r)"
    using assms(2,3)
    by (auto simp add: continuous_def start_threads simp del: statements.simps split: option.splits)
  have "lifecycle (fst r0) = lifecycle ?s1"
    using capture_loop_lifecycle [where iter = iter and cs = cs and l = initial_locals
        and s = ?s1 and s' = "fst r0" and r = "snd r0", OF assms(1)] r0(1)
    by simp
  then show ?thesis
    using finally_cleanup_lifecycle [OF assms(2), of "except_KeyboardInterrupt r0"] r0(2)
    by (simp add: except_KeyboardInterrupt_fst)
qed

lemma window_single: "np_mean (score_mean (window_update x initial_locals)) = x / 10"
  by (simp add: np_mean_def window_update_def initial_locals_def Let_def numeral_eq_Suc)

lemma fold_call_stop: "\<not> whileMove (fold call (xs @ [SetWhileMove False]) s)"
  by (simp add: setWhileMove_def)

lemma capture_loop_stop_request:
  "calls_before c = xs @ [SetWhileMove False] \<Longrightarrow>
     capture_loop iter (pre @ c # post) l s \<noteq> None"
proof (induction pre arbitrary: l s)
  case Nil
  then show ?case by (simp add: setWhileMove_def)
next
  case (Cons p pre)
  obtain l' s2 e where it: "iter p l (fold call (calls_before p) s) = (l', s2, e)"
    by (cases "iter p l (fold call (calls_before p) s)") auto
  show ?case
    using Cons.IH [OF Cons.prems, of l' s2] it
    by (cases e) (simp_all add: Let_def)
qed

lemma capture_loop_raise:
  "\<forall>l s. snd (snd (iter c l s)) \<noteq> None \<Longrightarrow>
     capture_loop iter (pre @ c # post) l s \<noteq> None"
proof (induction pre arbitrary: l s)
  case Nil
  obtain l' s2 e where it: "iter c l (fold call (calls_before c) s) = (l', s2, e)"
    by (cases "iter c l (fold call (calls_before c) s)") auto
  then have "e \<noteq> None" using Nil [rule_format, of l "fold call (calls_before c) s"] by simp
  then show ?case using it by (auto simp add: Let_def)
next
  case (Cons p pre)
  obtain l' s2 e where it: "iter p l (fold call (calls_before p) s) = (l', s2, e)"
    by (cases "iter p l (fold call (calls_before p) s)") auto
  show ?case
    using Cons.IH [OF Cons.prems, of l' s2] it
    by (cases e) (simp_all add: Let_def)
qed

lemma main_cycle_capture_fault:
  "capture_fault c = Some e \<Longrightarrow> snd (snd (main_cycle c l s)) \<noteq> None"
  by (simp add: main_cycle_def Let_def library_call_def)

lemma autoLook_cycle_capture_fault:
  "capture_fault c = Some e \<Longrightarrow> snd (snd (autoLook_cycle c l s)) \<noteq> None"
  by (simp add: autoLook_cycle_def Let_def library_call_def)

lemma continuous_returns:
  assumes "\<And>l s. capture_loop iter cs l s \<noteq> None"
  shows "\<exists>t e. continuous iter None fault cs s = Some (t, e) \<and> whileMove t"
proof -
  have "continuous iter None fault cs s \<noteq> None"
    using assms by (auto simp add: continuous_def simp del: statements.simps split: option.splits prod.splits)
  then obtain t e where "continuous iter None fault cs s = Some (t, e)" by auto
  then show ?thesis using continuous_whileMove by blast
qed

text \<open>
  C4, as stated, fails: when stopping the recording raises, no server is shut down and
  no thread is joined, and the exception leaves \<open>main\<close>.
\<close>

theorem cleanup_best_effort_counterexample:
  "cleanup (\<lambda>a. if a = StopRecording then Some OSError else None) st0
     = (st0\<lparr>lifecycle := [StopRecording]\<rparr>, Some OSError) \<and>
   main None (\<lambda>a. if a = StopRecording then Some OSError else None) [] (setWhileMove False st0)
     = Some (st0\<lparr>lifecycle := [Start WebsocketThread, Start HttpThread, Start BroadcastThread,
                                 StopRecording]\<rparr>, Some OSError)"
  by (simp add: main_def continuous_def cleanup_def perform_def st0_def setWhileMove_def
      finally_do_def except_KeyboardInterrupt_def)

text \<open>
  C4, amended. The clause resets the flag and then calls, in this order: stop the
  recording, join the broadcast thread, shut down the HTTP server, shut down the
  websocket server, join the HTTP thread, join the websocket thread. The calls are made
  up to and including the first that raises; the ones after it are not made, and its
  exception is the outcome. When no lifecycle call raises, every run of \<open>main\<close> that
  ends has made the three starts and the six calls, the joins in the reverse of the
  order of the starts.
\<close>

theorem cleanup_stops_at_first_failure:
  "cleanup fault s =
     (s\<lparr>whileMove := True,
        lifecycle := lifecycle s @
          (case find (\<lambda>a. fault a \<noteq> None) cleanup_steps of
             None \<Rightarrow> cleanup_steps
           | Some a \<Rightarrow> takeWhile (\<lambda>a. fault a = None) cleanup_steps @ [a])\<rparr>,
      case find (\<lambda>a. fault a \<noteq> None) cleanup_steps of None \<Rightarrow> None | Some a \<Rightarrow> fault a)
   \<and> ((\<forall>a. fault a = None) \<longrightarrow>
        (\<forall>cs s' r. main None fault cs s = Some (s', r) \<longrightarrow>
           lifecycle s' = lifecycle s @
             [Start WebsocketThread, Start HttpThread, Start BroadcastThread,
              StopRecording, Join BroadcastThread, ShutdownHttp, ShutdownWebsockets,
              Join HttpThread, Join WebsocketThread]))"
proof (intro conjI impI allI)
  show "cleanup fault s =
     (s\<lparr>whileMove := True,
        lifecycle := lifecycle s @
          (case find (\<lambda>a. fault a \<noteq> None) cleanup_steps of
             None \<Rightarrow> cleanup_steps
           | Some a \<Rightarrow> takeWhile (\<lambda>a. fault a = None) cleanup_steps @ [a])\<rparr>,
      case find (\<lambda>a. fault a \<noteq> None) cleanup_steps of None \<Rightarrow> None | Some a \<Rightarrow> fault a)"
    by (simp add: cleanup_eq statements_perform)
next
  fix cs s' r
  assume "\<forall>a. fault a = None" and "main None fault cs s = Some (s', r)"
  then show "lifecycle s' = lifecycle s @
             [Start WebsocketThread, Start HttpThread, Start BroadcastThread,
              StopRecording, Join BroadcastThread, ShutdownHttp, ShutdownWebsockets,
              Join HttpThread, Join WebsocketThread]"
    using continuous_lifecycle [where iter = main_cycle and fault = fault and cs = cs
        and s = s and s' = s' and r = r, OF main_cycle_lifecycle]
    by (simp add: main_def cleanup_steps_def)
qed

theorem cleanup_stops_at_first_failure_witness:
  "\<exists>s' r. main None (\<lambda>a. None) cs_stop st0 = Some (s', r) \<and>
      lifecycle s' =
        [Start WebsocketThread, Start HttpThread, Start BroadcastThread,
         StopRecording, Join BroadcastThread, ShutdownHttp, ShutdownWebsockets,
         Join HttpThread, Join WebsocketThread]"
proof -
  have "capture_loop main_cycle cs_stop l t \<noteq> None" for l t
    using capture_loop_stop_request [of "quiet\<lparr>calls_before := [SetWhileMove False]\<rparr>" "[]"
        main_cycle "[quiet]" "[]" l t]
    by (simp add: cs_stop_def)
  then obtain s' r where run: "main None (\<lambda>a. None) cs_stop st0 = Some (s', r)"
    using continuous_returns [of main_cycle cs_stop "\<lambda>a. None" st0] by (auto simp: main_def)
  have "lifecycle s' = lifecycle st0 @
        [Start WebsocketThread, Start HttpThread, Start BroadcastThread,
         StopRecording, Join BroadcastThread, ShutdownHttp, ShutdownWebsockets,
         Join HttpThread, Join WebsocketThread]"
    using cleanup_stops_at_first_failure [of "\<lambda>a. None" st0, THEN conjunct2, rule_format, of cs_stop s' r]
      run by simp
  then show ?thesis using run by (simp add: st0_def)
qed

text \<open>
  C10. A run of \<open>main\<close> or \<open>autoLook\<close> that entered its \<^verbatim>\<open>try\<close> and has ended leaves
  the continue flag set, whatever ended it and whatever the lifecycle calls did. And the
  run does end, with the flag set, when a trace has a cycle before whose test the last
  control call is \<^verbatim>\<open>setWhileMove(False)\<close>, or a cycle whose capture raises
  \<^verbatim>\<open>KeyboardInterrupt\<close>.
\<close>

theorem run_end_sets_whileMove:
  "(main None fault cs s = Some (s', r) \<longrightarrow> getWhileMove s')
   \<and> (autoLook None fault cs s = Some (s', r) \<longrightarrow> getWhileMove s')
   \<and> (calls_before c = xs @ [SetWhileMove False] \<or> capture_fault c = Some KeyboardInterrupt \<longrightarrow>
        (\<exists>t e. main None fault (pre @ c # post) s = Some (t, e) \<and> getWhileMove t)
        \<and> (\<exists>t e. autoLook None fault (pre @ c # post) s = Some (t, e) \<and> getWhileMove t))"
proof (intro conjI impI)
  show "main None fault cs s = Some (s', r) \<Longrightarrow> getWhileMove s'"
    using continuous_whileMove [of main_cycle fault cs s s' r] by (simp add: main_def getWhileMove_def)
  show "autoLook None fault cs s = Some (s', r) \<Longrightarrow> getWhileMove s'"
    using continuous_whileMove [of autoLook_cycle fault cs s s' r]
    by (simp add: autoLook_def getWhileMove_def)
  assume h: "calls_before c = xs @ [SetWhileMove False] \<or> capture_fault c = Some KeyboardInterrupt"
  have "capture_loop main_cycle (pre @ c # post) l t \<noteq> None" for l t
    using h capture_loop_stop_request [of c xs main_cycle pre post l t]
      capture_loop_raise [of main_cycle c pre post l t] main_cycle_capture_fault [of c]
    by blast
  then show "\<exists>t e. main None fault (pre @ c # post) s = Some (t, e) \<and> getWhileMove t"
    using continuous_returns [of main_cycle "pre @ c # post" fault s]
    by (simp add: main_def getWhileMove_def)
  have "capture_loop autoLook_cycle (pre @ c # post) l t \<noteq> None" for l t
    using h capture_loop_stop_request [of c xs autoLook_cycle pre post l t]
      capture_loop_raise [of autoLook_cycle c pre post l t] autoLook_cycle_capture_fault [of c]
    by blast
  then show "\<exists>t e. autoLook None fault (pre @ c # post) s = Some (t, e) \<and> getWhileMove t"
    using continuous_returns [of autoLook_cycle "pre @ c # post" fault s]
    by (simp add: autoLook_def getWhileMove_def)
qed

theorem run_end_sets_whileMove_witness:
  "(\<exists>t e. main None (\<lambda>a. None) cs_stop st0 = Some (t, e) \<and> getWhileMove t)
   \<and> (\<exists>t e. autoLook None (\<lambda>a. None) cs_interrupt st0 = Some (t, e) \<and> getWhileMove t)"
proof -
  have a: "calls_before (quiet\<lparr>calls_before := [SetWhileMove False]\<rparr>) = [] @ [SetWhileMove False]"
    by simp
  have b: "capture_fault (quiet\<lparr>capture_fault := Some KeyboardInterrupt\<rparr>) = Some KeyboardInterrupt"
    by simp
  have "\<exists>t e. main None (\<lambda>a. None) ([quiet] @ quiet\<lparr>calls_before := [SetWhileMove False]\<rparr> # []) st0
          = Some (t, e) \<and> getWhileMove t"
    using run_end_sets_whileMove [THEN conjunct2, THEN conjunct2, rule_format, OF disjI1, OF a]
    by blast
  moreover have "\<exists>t e. autoLook None (\<lambda>a. None)
        ([quiet] @ quiet\<lparr>capture_fault := Some KeyboardInterrupt\<rparr> # []) st0
          = Some (t, e) \<and> getWhileMove t"
    using run_end_sets_whileMove [THEN conjunct2, THEN conjunct2, rule_format, OF disjI2, OF b]
    by blast
  ultimately show ?thesis by (simp add: cs_stop_def cs_interrupt_def)
qed

lemma statements_ok: "f s = (s', None) \<Longrightarrow> statements (f # fs) s = statements fs s'"
  by simp

lemma single_eq:
  "single None c s =
     except_KeyboardInterrupt
       (statements
          [library_call (capture_fault c), consume_intents (notify_fault c) (score c / 10),
           library_call (tail_fault c)] s)"
  by (simp add: single_def window_single del: statements.simps)

text \<open>
  C5, as stated, fails: with the look intent set as well, one single-check cycle after
  \<^verbatim>\<open>setWater(True)\<close> raises nothing, posts the look comment, clears the look flag, and
  leaves the water flag set.
\<close>

theorem single_clears_water_counterexample:
  "single None pr0 (setWater True (setLook True st0))
     = (st0\<lparr>water := True, posted := [LOOK_COMMENT]\<rparr>, None)
   \<and> getWater (fst (single None pr0 (setWater True (setLook True st0))))"
  by (simp add: single_eq pr0_def st0_def setWater_def setLook_def getWater_def library_call_def
      consume_intents_def notify_look_def sendSlack_def except_KeyboardInterrupt_def)

text \<open>
  C5, amended. After \<^verbatim>\<open>setWater(True)\<close>, one single-check cycle in which the camera
  opens and neither the capture nor the notification raises: when the look intent is
  not set, it posts exactly one comment, the water comment when the mean score is
  between the thresholds and the not-water comment otherwise, and clears the water flag
  in both branches; when the look intent is set, it posts the look comment, clears the
  look flag and leaves the water flag set.
\<close>

theorem single_consumes_one_intent:
  assumes "capture_fault c = None" and "notify_fault c = None"
  shows "single None c (setWater True s) =
     (if look s then s\<lparr>water := True, look := False, posted := posted s @ [LOOK_COMMENT]\<rparr>
      else s\<lparr>water := False,
             posted := posted s @ [if in_band (score c / 10) then WATER_COMMENT else NOT_WATER_COMMENT]\<rparr>,
      if tail_fault c = Some KeyboardInterrupt then None else tail_fault c)"
proof -
  have body: "consume_intents None (score c / 10) (setWater True s) =
      (if look s then s\<lparr>water := True, look := False, posted := posted s @ [LOOK_COMMENT]\<rparr>
       else s\<lparr>water := False,
              posted := posted s @ [if in_band (score c / 10) then WATER_COMMENT else NOT_WATER_COMMENT]\<rparr>,
       None)"
    by (simp add: consume_intents_def notify_look_def notify_water_def sendSlack_def setWater_def)
  have tail: "except_KeyboardInterrupt (t, tail_fault c)
      = (t, if tail_fault c = Some KeyboardInterrupt then None else tail_fault c)" for t :: state
    by (auto simp add: except_KeyboardInterrupt_def split: option.splits exn.splits)
  have last: "statements [library_call (tail_fault c)] t = (t, tail_fault c)" for t
    by (cases "tail_fault c") (simp_all add: library_call_def)
  have lc: "library_call None (setWater True s) = (setWater True s, None)"
    by (simp add: library_call_def)
  have "statements
          [library_call None, consume_intents None (score c / 10), library_call (tail_fault c)]
          (setWater True s)
        = (fst (consume_intents None (score c / 10) (setWater True s)), tail_fault c)"
    by (simp only: statements_ok [where f = "library_call None" and s = "setWater True s", OF lc]
        statements_ok [where f = "consume_intents None (score c / 10)" and s = "setWater True s",
          OF body] last body fst_conv)
  then show ?thesis
    using assms by (simp add: single_eq body tail del: statements.simps)
qed

theorem single_consumes_one_intent_witness:
  "capture_fault pr0 = None \<and> notify_fault pr0 = None \<and>
   single None pr0 (setWater True st0)
     = (st0\<lparr>posted := [WATER_COMMENT]\<rparr>, None) \<and>
   single None (pr0\<lparr>score := 20\<rparr>) (setWater True st0)
     = (st0\<lparr>posted := [NOT_WATER_COMMENT]\<rparr>, None)"
proof -
  have a: "capture_fault pr0 = None" "notify_fault pr0 = None"
    and b: "capture_fault (pr0\<lparr>score := 20\<rparr>) = None" "notify_fault (pr0\<lparr>score := 20\<rparr>) = None"
    by (simp_all add: pr0_def)
  have "single None pr0 (setWater True st0) = (st0\<lparr>posted := [WATER_COMMENT]\<rparr>, None)"
    using single_consumes_one_intent [OF a, of st0]
    by (simp add: pr0_def st0_def in_band_def SCORE_THRESHOLD_UNDER_def SCORE_THRESHOLD_UPPER_def)
  moreover have "single None (pr0\<lparr>score := 20\<rparr>) (setWater True st0)
      = (st0\<lparr>posted := [NOT_WATER_COMMENT]\<rparr>, None)"
    using single_consumes_one_intent [OF b, of st0]
    by (simp add: pr0_def st0_def in_band_def SCORE_THRESHOLD_UNDER_def SCORE_THRESHOLD_UPPER_def)
  ultimately show ?thesis using a by simp
qed

subsection \<open>The page server\<close>

declare digits.simps [simp del] scan.simps(2) [simp del]

lemma digits_small: "n < 10 \<Longrightarrow> digits n = [digit n]"
  by (simp add: digits.simps [of n])

lemma digits_large: "10 \<le> n \<Longrightarrow> digits n = digits (n div 10) @ [digit (n mod 10)]"
  by (simp add: digits.simps [of n])

lemma str_int_examples:
  "str_int 8084 = ''8084''" "str_int 640 = ''640''" "str_int 480 = ''480''" "str_int 14 = ''14''"
  by (simp_all add: str_int_def digits_small digits_large digit_def)

lemma template_mapping_simps:
  "template_mapping ''WS_PORT'' = Some ''8084''"
  "template_mapping ''WIDTH'' = Some ''640''"
  "template_mapping ''HEIGHT'' = Some ''480''"
  "template_mapping ''COLOR'' = Some ''#444''"
  "template_mapping ''BGCOLOR'' = Some ''#333''"
  by (simp_all add: template_mapping_def WS_PORT_def WIDTH_def HEIGHT_def COLOR_def BGCOLOR_def
      str_int_examples)

lemma scan_unknown: "scan ''$TITLE'' = [Named ''TITLE'']"
  by code_simp

lemma scan_example:
  "scan ''w=${WIDTH} h=$HEIGHT p=${WS_PORT}'' =
     [Literal CHR ''w'', Literal CHR ''='', Braced ''WIDTH'', Literal CHR '' '',
      Literal CHR ''h'', Literal CHR ''='', Named ''HEIGHT'', Literal CHR '' '',
      Literal CHR ''p'', Literal CHR ''='', Braced ''WS_PORT'']"
  by code_simp

lemma respond_fields:
  "code (respond lib req ct content) = 200"
  "header ''Content-Type'' (respond lib req ct content) = Some ct"
  "header ''Content-Length'' (respond lib req ct content)
     = Some (str_int (int (length (encode_utf8 content))))"
  "header ''Last-Modified'' (respond lib req ct content) = Some (date_time_string lib)"
  "body (respond lib req ct content) = (if command req = ''GET'' then encode_utf8 content else [])"
  by (simp_all add: respond_def Let_def send_response_def send_header_def wfile_write_def
      empty_response_def header_def)

lemma redirect_fields:
  "code (send_header ''Location'' ''/index.html'' (send_response lib 301 empty_response)) = 301"
  "header ''Location'' (send_header ''Location'' ''/index.html'' (send_response lib 301 empty_response))
     = Some ''/index.html''"
  "header ''Content-Length'' (send_header ''Location'' ''/index.html'' (send_response lib 301 empty_response))
     = None"
  "header ''Last-Modified'' (send_header ''Location'' ''/index.html'' (send_response lib 301 empty_response))
     = None"
  "body (send_header ''Location'' ''/index.html'' (send_response lib 301 empty_response)) = []"
  by (simp_all add: send_response_def send_header_def empty_response_def header_def)

lemma send_error_fields:
  "code (send_error lib req c m empty_response) = c"
  "header ''Content-Length'' (send_error lib req c m empty_response)
     = Some (str_int (int (length (encode_utf8 (error_page lib c m)))))"
  "header ''Last-Modified'' (send_error lib req c m empty_response) = None"
  "body (send_error lib req c m empty_response)
     = (if command req \<noteq> ''HEAD'' then encode_utf8 (error_page lib c m) else [])"
  by (simp_all add: send_error_def Let_def send_response_def send_header_def wfile_write_def
      empty_response_def header_def)

lemma scan_Literal: "Literal c \<in> set (scan s) \<Longrightarrow> c \<noteq> CHR ''$''"
proof (induction s rule: scan.induct)
  case 1
  then show ?case by simp
next
  case (2 d ds)
  then show ?case
    by (auto simp add: scan.simps(2) [of d ds] split: if_splits list.splits)
qed

lemma scan_literal_prefix:
  "CHR ''$'' \<notin> set a \<Longrightarrow> scan (a @ rest) = map Literal a @ scan rest"
  by (induction a) (auto simp add: scan.simps(2))

lemma dom_template_mapping:
  "dom template_mapping = {''WS_PORT'', ''WIDTH'', ''HEIGHT'', ''COLOR'', ''BGCOLOR''}"
  by (auto simp add: template_mapping_def dom_map_of_conv_image_fst)

lemma known_names:
  assumes "template_mapping n = Some v"
  shows "n \<noteq> [] \<and> id_start (hd n) \<and> list_all id_char n \<and> CHR ''$'' \<notin> set v"
proof -
  have "(n, v) \<in> set [(''WS_PORT'', ''8084''), (''WIDTH'', ''640''), (''HEIGHT'', ''480''),
                       (''COLOR'', ''#444''), (''BGCOLOR'', ''#333'')]"
    using assms
    by (intro map_of_SomeD)
      (simp add: template_mapping_def WS_PORT_def WIDTH_def HEIGHT_def COLOR_def BGCOLOR_def
        str_int_examples)
  then have "n = ''WS_PORT'' \<and> v = ''8084'' \<or> n = ''WIDTH'' \<and> v = ''640''
      \<or> n = ''HEIGHT'' \<and> v = ''480'' \<or> n = ''COLOR'' \<and> v = ''#444''
      \<or> n = ''BGCOLOR'' \<and> v = ''#333''"
    by simp
  then show ?thesis
    by (elim disjE conjE) (simp_all add: id_start_def id_char_def)
qed

lemma scan_braced:
  assumes "n \<noteq> []" and "id_start (hd n)" and "list_all id_char n"
  shows "scan (''${'' @ n @ ''}'' @ rest) = Braced n # scan rest"
proof -
  obtain i js where n: "n = i # js" using assms(1) by (cases n) auto
  have close: "\<not> id_char CHR ''}''" by (simp add: id_char_def id_start_def)
  have tw: "takeWhile id_char (n @ CHR ''}'' # rest) = n"
    using assms(3) close by (simp add: takeWhile_append2 list_all_iff)
  have dw: "dropWhile id_char (n @ CHR ''}'' # rest) = CHR ''}'' # rest"
    using assms(3) close by (simp add: dropWhile_append2 list_all_iff)
  have "\<not> id_start CHR ''{''" by (simp add: id_start_def)
  then show ?thesis
    using assms(2) tw dw n
    by (simp add: scan.simps(2) [of "CHR ''$''"])
qed

lemma render_clean:
  "recognised t \<Longrightarrow> (\<forall>c. t = Literal c \<longrightarrow> c \<noteq> CHR ''$'') \<Longrightarrow>
     CHR ''$'' \<notin> set (render template_mapping t)"
  using known_names
  by (cases t) (auto simp add: recognised_def render_def split: option.splits)

lemma substitute_clean:
  assumes "list_all recognised (scan tpl)"
  shows "CHR ''$'' \<notin> set (safe_substitute template_mapping tpl)"
proof -
  have "CHR ''$'' \<notin> set (render template_mapping t)" if "t \<in> set (scan tpl)" for t
    using that assms scan_Literal [of _ tpl] render_clean [of t]
    by (auto simp add: list_all_iff)
  then show ?thesis by (auto simp add: safe_substitute_def)
qed

lemma substitute_braced:
  assumes "CHR ''$'' \<notin> set a" and "template_mapping n = Some v"
  shows "safe_substitute template_mapping (a @ ''${'' @ n @ ''}'' @ rest)
           = a @ v @ safe_substitute template_mapping rest"
proof -
  have "scan (a @ ''${'' @ n @ ''}'' @ rest) = map Literal a @ Braced n # scan rest"
    using scan_literal_prefix [OF assms(1)] scan_braced [of n rest] known_names [OF assms(2)]
    by simp
  moreover have "concat (map (render template_mapping) (map Literal a)) = a"
    by (induction a) (simp_all add: render_def)
  ultimately show ?thesis
    using assms(2) by (simp add: safe_substitute_def render_def)
qed

text \<open>
  C8. \<^verbatim>\<open>GET /\<close> is answered with 301 and the location \<^verbatim>\<open>/index.html\<close>, without a
  body; \<^verbatim>\<open>GET /jsmpg.js\<close> with 200, the type \<^verbatim>\<open>application/javascript\<close> and the
  script as read, encoded; a \<^verbatim>\<open>GET\<close> of any other path than these two and
  \<^verbatim>\<open>/index.html\<close> with 404, the library's error page as the body, and a
  \<^verbatim>\<open>Content-Length\<close> that is the length of the body sent.
\<close>

theorem page_routing:
  "(path req = ''/'' \<longrightarrow>
      code (do_GET srv lib req) = 301
      \<and> header ''Location'' (do_GET srv lib req) = Some ''/index.html''
      \<and> body (do_GET srv lib req) = [])
   \<and> (path req = ''/jsmpg.js'' \<and> command req = ''GET'' \<longrightarrow>
      code (do_GET srv lib req) = 200
      \<and> header ''Content-Type'' (do_GET srv lib req) = Some ''application/javascript''
      \<and> body (do_GET srv lib req) = encode_utf8 (jsmpg_content srv))
   \<and> (path req \<noteq> ''/'' \<and> path req \<noteq> ''/jsmpg.js'' \<and> path req \<noteq> ''/index.html''
        \<and> command req = ''GET'' \<longrightarrow>
      code (do_GET srv lib req) = 404
      \<and> body (do_GET srv lib req) = encode_utf8 (error_page lib 404 ''File not found'')
      \<and> header ''Content-Length'' (do_GET srv lib req)
            = Some (str_int (int (length (body (do_GET srv lib req))))))"
  by (simp add: do_GET_def respond_fields redirect_fields send_error_fields)

theorem page_routing_witness:
  "code (do_GET srv0 lib0 \<lparr>command = ''GET'', path = ''/''\<rparr>) = 301
   \<and> header ''Location'' (do_GET srv0 lib0 \<lparr>command = ''GET'', path = ''/''\<rparr>) = Some ''/index.html''
   \<and> code (do_GET srv0 lib0 \<lparr>command = ''GET'', path = ''/jsmpg.js''\<rparr>) = 200
   \<and> body (do_GET srv0 lib0 \<lparr>command = ''GET'', path = ''/jsmpg.js''\<rparr>)
        = [0x76, 0x61, 0x72, 0x20, 0x78, 0x3B]
   \<and> code (do_GET srv0 lib0 \<lparr>command = ''GET'', path = ''/nope''\<rparr>) = 404
   \<and> length (body (do_GET srv0 lib0 \<lparr>command = ''GET'', path = ''/nope''\<rparr>)) = 14
   \<and> header ''Content-Length'' (do_GET srv0 lib0 \<lparr>command = ''GET'', path = ''/nope''\<rparr>) = Some ''14''"
proof -
  have enc: "encode_utf8 ''var x;'' = [0x76, 0x61, 0x72, 0x20, 0x78, 0x3B]"
    "length (encode_utf8 ''File not found'') = 14"
    by (simp_all add: encode_utf8_def)
  note a = page_routing [of "\<lparr>command = ''GET'', path = ''/''\<rparr>" srv0 lib0, THEN conjunct1]
  note b = page_routing [of "\<lparr>command = ''GET'', path = ''/jsmpg.js''\<rparr>" srv0 lib0,
      THEN conjunct2, THEN conjunct1]
  note c = page_routing [of "\<lparr>command = ''GET'', path = ''/nope''\<rparr>" srv0 lib0,
      THEN conjunct2, THEN conjunct2]
  from a have "code (do_GET srv0 lib0 \<lparr>command = ''GET'', path = ''/''\<rparr>) = 301
      \<and> header ''Location'' (do_GET srv0 lib0 \<lparr>command = ''GET'', path = ''/''\<rparr>) = Some ''/index.html''"
    by simp
  moreover from b have "code (do_GET srv0 lib0 \<lparr>command = ''GET'', path = ''/jsmpg.js''\<rparr>) = 200
      \<and> body (do_GET srv0 lib0 \<lparr>command = ''GET'', path = ''/jsmpg.js''\<rparr>)
        = [0x76, 0x61, 0x72, 0x20, 0x78, 0x3B]"
    by (simp add: srv0_def enc)
  moreover from c have "code (do_GET srv0 lib0 \<lparr>command = ''GET'', path = ''/nope''\<rparr>) = 404
      \<and> length (body (do_GET srv0 lib0 \<lparr>command = ''GET'', path = ''/nope''\<rparr>)) = 14
      \<and> header ''Content-Length'' (do_GET srv0 lib0 \<lparr>command = ''GET'', path = ''/nope''\<rparr>) = Some ''14''"
    by (simp add: lib0_def enc str_int_examples)
  ultimately show ?thesis by blast
qed

text \<open>
  C9, as stated, fails: the redirect for \<^verbatim>\<open>GET /\<close> carries neither a
  \<^verbatim>\<open>Content-Length\<close> nor a \<^verbatim>\<open>Last-Modified\<close> header, and the 404 for an unknown path
  carries no \<^verbatim>\<open>Last-Modified\<close> header.
\<close>

theorem every_response_headers_counterexample:
  "header ''Content-Length'' (do_GET srv0 lib0 \<lparr>command = ''GET'', path = ''/''\<rparr>) = None
   \<and> header ''Last-Modified'' (do_GET srv0 lib0 \<lparr>command = ''GET'', path = ''/''\<rparr>) = None
   \<and> header ''Last-Modified'' (do_GET srv0 lib0 \<lparr>command = ''GET'', path = ''/nope''\<rparr>) = None"
  by (simp add: do_GET_def redirect_fields send_error_fields)

text \<open>
  C9, amended. The answers to \<^verbatim>\<open>/jsmpg.js\<close> and \<^verbatim>\<open>/index.html\<close>, to \<^verbatim>\<open>GET\<close> and to
  \<^verbatim>\<open>HEAD\<close>, are 200 with a \<^verbatim>\<open>Content-Length\<close> that is the length of the encoded
  content and a \<^verbatim>\<open>Last-Modified\<close> header with the current time, and a \<^verbatim>\<open>GET\<close> sends
  that content. The redirect for \<^verbatim>\<open>/\<close> has neither header. The 404 for another
  path has the length of the library's error page and no \<^verbatim>\<open>Last-Modified\<close> header.
\<close>

theorem content_responses_headers:
  "(path req = ''/jsmpg.js'' \<or> path req = ''/index.html'' \<longrightarrow>
      code (do_GET srv lib req) = 200
      \<and> header ''Content-Length'' (do_GET srv lib req)
            = Some (str_int (int (length (encode_utf8
                (if path req = ''/jsmpg.js'' then jsmpg_content srv
                 else safe_substitute template_mapping (index_template srv))))))
      \<and> header ''Last-Modified'' (do_GET srv lib req) = Some (date_time_string lib)
      \<and> (command req = ''GET'' \<longrightarrow>
            body (do_GET srv lib req) = encode_utf8
                (if path req = ''/jsmpg.js'' then jsmpg_content srv
                 else safe_substitute template_mapping (index_template srv))))
   \<and> (path req = ''/'' \<longrightarrow>
      code (do_GET srv lib req) = 301
      \<and> header ''Content-Length'' (do_GET srv lib req) = None
      \<and> header ''Last-Modified'' (do_GET srv lib req) = None)
   \<and> (path req \<noteq> ''/'' \<and> path req \<noteq> ''/jsmpg.js'' \<and> path req \<noteq> ''/index.html'' \<longrightarrow>
      code (do_GET srv lib req) = 404
      \<and> header ''Content-Length'' (do_GET srv lib req)
            = Some (str_int (int (length (encode_utf8 (error_page lib 404 ''File not found'')))))
      \<and> header ''Last-Modified'' (do_GET srv lib req) = None)"
  by (auto simp add: do_GET_def respond_fields redirect_fields send_error_fields)

theorem content_responses_headers_witness:
  "header ''Content-Length'' (do_GET srv0 lib0 \<lparr>command = ''HEAD'', path = ''/jsmpg.js''\<rparr>) = Some ''6''
   \<and> header ''Last-Modified'' (do_GET srv0 lib0 \<lparr>command = ''HEAD'', path = ''/jsmpg.js''\<rparr>)
        = Some ''Thu, 01 Jan 1970 00:00:00 GMT''
   \<and> header ''Content-Length'' (do_GET srv0 lib0 \<lparr>command = ''GET'', path = ''/''\<rparr>) = None
   \<and> header ''Content-Length'' (do_GET srv0 lib0 \<lparr>command = ''GET'', path = ''/nope''\<rparr>) = Some ''14''"
proof -
  have enc: "length (encode_utf8 ''var x;'') = 6" "length (encode_utf8 ''File not found'') = 14"
    by (simp_all add: encode_utf8_def)
  have six: "str_int 6 = ''6''" by (simp add: str_int_def digits_small digit_def)
  note a = content_responses_headers [of "\<lparr>command = ''HEAD'', path = ''/jsmpg.js''\<rparr>" srv0 lib0,
      THEN conjunct1]
  note b = content_responses_headers [of "\<lparr>command = ''GET'', path = ''/''\<rparr>" srv0 lib0,
      THEN conjunct2, THEN conjunct1]
  note c = content_responses_headers [of "\<lparr>command = ''GET'', path = ''/nope''\<rparr>" srv0 lib0,
      THEN conjunct2, THEN conjunct2]
  from a have "header ''Content-Length'' (do_GET srv0 lib0 \<lparr>command = ''HEAD'', path = ''/jsmpg.js''\<rparr>) = Some ''6''
      \<and> header ''Last-Modified'' (do_GET srv0 lib0 \<lparr>command = ''HEAD'', path = ''/jsmpg.js''\<rparr>)
        = Some ''Thu, 01 Jan 1970 00:00:00 GMT''"
    by (simp add: srv0_def lib0_def enc six)
  moreover from b have "header ''Content-Length'' (do_GET srv0 lib0 \<lparr>command = ''GET'', path = ''/''\<rparr>) = None"
    by simp
  moreover from c have "header ''Content-Length'' (do_GET srv0 lib0 \<lparr>command = ''GET'', path = ''/nope''\<rparr>) = Some ''14''"
    by (simp add: lib0_def enc str_int_examples)
  ultimately show ?thesis by blast
qed

lemma scan_named:
  assumes "n \<noteq> []" and "id_start (hd n)" and "list_all id_char n"
    and "rest = [] \<or> \<not> id_char (hd rest)"
  shows "scan (CHR ''$'' # n @ rest) = Named n # scan rest"
proof -
  obtain i js where n: "n = i # js" using assms(1) by (cases n) auto
  have rest: "takeWhile id_char rest = []" "dropWhile id_char rest = rest"
    using assms(4) by (cases rest; simp)+
  have tw: "takeWhile id_char (n @ rest) = n"
    using assms(3) rest by (simp add: takeWhile_append2 list_all_iff)
  have dw: "dropWhile id_char (n @ rest) = rest"
    using assms(3) rest by (simp add: dropWhile_append2 list_all_iff)
  have "i \<noteq> CHR ''$''" using assms(2) n by (auto simp add: id_start_def)
  then show ?thesis
    using assms(2) tw dw n by (simp add: scan.simps(2) [of "CHR ''$''"])
qed

lemma substitute_named:
  assumes "CHR ''$'' \<notin> set a" and "template_mapping n = Some v"
    and "rest = [] \<or> \<not> id_char (hd rest)"
  shows "safe_substitute template_mapping (a @ CHR ''$'' # n @ rest)
           = a @ v @ safe_substitute template_mapping rest"
proof -
  have "scan (a @ CHR ''$'' # n @ rest) = map Literal a @ Named n # scan rest"
    using scan_literal_prefix [OF assms(1)] scan_named [of n rest] known_names [OF assms(2)] assms(3)
    by simp
  moreover have "concat (map (render template_mapping) (map Literal a)) = a"
    by (induction a) (simp_all add: render_def)
  ultimately show ?thesis
    using assms(2) by (simp add: safe_substitute_def render_def)
qed

text \<open>
  C7, as stated, fails: a template with a placeholder of another name is served with
  that placeholder still in the page.
\<close>

theorem no_placeholder_remains_counterexample:
  "safe_substitute template_mapping ''$TITLE'' = ''$TITLE''
   \<and> body (do_GET (srv0\<lparr>index_template := ''$TITLE''\<rparr>) lib0 \<lparr>command = ''GET'', path = ''/index.html''\<rparr>)
        = encode_utf8 ''$TITLE''"
proof -
  have "template_mapping ''TITLE'' = None"
    by (simp add: template_mapping_def)
  then have "safe_substitute template_mapping ''$TITLE'' = ''$TITLE''"
    by (simp add: safe_substitute_def scan_unknown render_def)
  then show ?thesis
    by (simp add: do_GET_def respond_fields srv0_def)
qed

text \<open>
  C7, amended. \<^verbatim>\<open>GET /index.html\<close> is answered with 200, the type
  \<^verbatim>\<open>text/html; charset=utf-8\<close>, and as body the encoded template in which each
  placeholder named WS_PORT, WIDTH, HEIGHT, COLOR or BGCOLOR, written with braces or
  without, stands replaced by its configured value (8084, 640, 480, #444, #333). A
  placeholder of another name stays as written. When every placeholder of the template
  has one of the five names and the template has no other dollar sign, no dollar sign
  and so no placeholder remains in the page.
\<close>

theorem index_page_substitution:
  assumes "path req = ''/index.html''"
  shows "code (do_GET srv lib req) = 200
    \<and> header ''Content-Type'' (do_GET srv lib req) = Some ''text/html; charset=utf-8''
    \<and> (command req = ''GET'' \<longrightarrow>
          body (do_GET srv lib req)
            = encode_utf8 (safe_substitute template_mapping (index_template srv)))
    \<and> template_mapping ''WS_PORT'' = Some ''8084'' \<and> template_mapping ''WIDTH'' = Some ''640''
    \<and> template_mapping ''HEIGHT'' = Some ''480'' \<and> template_mapping ''COLOR'' = Some ''#444''
    \<and> template_mapping ''BGCOLOR'' = Some ''#333''
    \<and> (\<forall>a n v rest. CHR ''$'' \<notin> set a \<and> template_mapping n = Some v \<longrightarrow>
          safe_substitute template_mapping (a @ ''${'' @ n @ ''}'' @ rest)
            = a @ v @ safe_substitute template_mapping rest)
    \<and> (\<forall>a n v rest. CHR ''$'' \<notin> set a \<and> template_mapping n = Some v
            \<and> (rest = [] \<or> \<not> id_char (hd rest)) \<longrightarrow>
          safe_substitute template_mapping (a @ CHR ''$'' # n @ rest)
            = a @ v @ safe_substitute template_mapping rest)
    \<and> (\<forall>n. template_mapping n = None \<longrightarrow>
          render template_mapping (Named n) = CHR ''$'' # n
          \<and> render template_mapping (Braced n) = ''${'' @ n @ ''}'')
    \<and> (list_all recognised (scan (index_template srv)) \<longrightarrow>
          CHR ''$'' \<notin> set (safe_substitute template_mapping (index_template srv)))"
proof -
  have route: "do_GET srv lib req
      = respond lib req ''text/html; charset=utf-8''
          (safe_substitute template_mapping (index_template srv))"
    using assms by (simp add: do_GET_def)
  show ?thesis
    unfolding route
    using substitute_braced substitute_named substitute_clean [of "index_template srv"]
    by (simp add: respond_fields template_mapping_simps render_def)
qed

theorem index_page_substitution_witness:
  "path \<lparr>command = ''GET'', path = ''/index.html''\<rparr> = ''/index.html''
   \<and> safe_substitute template_mapping (index_template srv0) = ''w=640 h=480 p=8084''
   \<and> body (do_GET srv0 lib0 \<lparr>command = ''GET'', path = ''/index.html''\<rparr>)
        = encode_utf8 ''w=640 h=480 p=8084''
   \<and> CHR ''$'' \<notin> set (safe_substitute template_mapping (index_template srv0))"
proof -
  have p: "path \<lparr>command = ''GET'', path = ''/index.html''\<rparr> = ''/index.html''" by simp
  have sub: "safe_substitute template_mapping (index_template srv0) = ''w=640 h=480 p=8084''"
    by (simp add: srv0_def safe_substitute_def scan_example render_def template_mapping_simps)
  have rec: "list_all recognised (scan (index_template srv0))"
    by (simp add: srv0_def scan_example recognised_def domIff template_mapping_simps)
  note inst = index_page_substitution [OF p, of srv0 lib0]
  from inst have "body (do_GET srv0 lib0 \<lparr>command = ''GET'', path = ''/index.html''\<rparr>)
        = encode_utf8 (safe_substitute template_mapping (index_template srv0))"
    by simp
  moreover from inst rec have "CHR ''$'' \<notin> set (safe_substitute template_mapping (index_template srv0))"
    by blast
  ultimately show ?thesis using p sub by simp
qed

end
